theory Spec2Isabelle
  imports Complex_Main "HOL-Library.AList" "HOL-Library.Log_Nat"
begin

section \<open>Data model: pandas frames as the notebook uses them\<close>

text \<open>
  A cell of a column is a number or the undefined-value marker (pandas NaN, and the
  \<open>None\<close> that \<open>dict.get\<close> returns for a missing key; \<open>dropna\<close> treats both alike).
  A number is the rational value of an int64 or of a finite float64. The arithmetic
  whose rounding decides a property is done in binary64 as the notebook does it: the
  index \<open>int(len(X) * (1 - test_size))\<close> and the conversion of the target column to
  float64 by \<open>shift\<close>. The group means are taken exactly.
  A timestamp of the \<open>DatetimeIndex\<close> is its pandas value, nanoseconds since
  1970-01-01 00:00 (a Thursday).
\<close>

type_synonym cell = "rat option"

datatype column = Y | Lag int | Hour | Weekday | Is_weekend | Weekday_average | Hour_average

type_synonym row = "int \<times> (column \<times> cell) list"

type_synonym frame = "row list"

type_synonym series = "(int \<times> cell) list"

definition hour_of :: "int \<Rightarrow> int" where
  "hour_of t = (t div 3600000000000) mod 24"

definition weekday_of :: "int \<Rightarrow> int" where
  "weekday_of t = (t div 86400000000000 + 3) mod 7"

subsection \<open>Python floats\<close>

text \<open>
  The exceptions that \<open>int()\<close> and the conversion of an integer to a float raise, next
  to the three failures that the specification names.
\<close>

datatype error = InvalidWindow | InvalidFraction | InsufficientData | OverflowError | ValueError

text \<open>A float: a finite binary64 value, an infinity or NaN. Signed zeros are one zero.\<close>

datatype pyfloat = Finite rat | PInf | NInf | NaN

text \<open>\<open>2\<^sup>e\<close> for an integer \<open>e\<close>, by a power of integers.\<close>

definition pow2 :: "int \<Rightarrow> rat" where
  "pow2 e = (if 0 \<le> e then of_int (2 ^ nat e) else 1 / of_int (2 ^ nat (- e)))"

text \<open>\<open>\<lfloor>log\<^sub>2 q\<rfloor>\<close> of a positive rational, from the bit lengths of its numerator and denominator.\<close>

definition ilog2 :: "rat \<Rightarrow> int" where
  "ilog2 q = (let d = bitlen (fst (quotient_of q)) - bitlen (snd (quotient_of q))
              in if pow2 d \<le> q then d else d - 1)"

definition round_half_even :: "rat \<Rightarrow> int" where
  "round_half_even m =
     (let f = \<lfloor>m\<rfloor>; r = m - of_int f
      in if r < 1 / 2 then f else if 1 / 2 < r then f + 1 else if even f then f else f + 1)"

text \<open>
  A positive rational rounded to 53 significant bits, ties to even, with the exponent
  unbounded above and the subnormal spacing \<open>2\<^sup>-\<^sup>1\<^sup>0\<^sup>7\<^sup>4\<close> below.
\<close>

definition round_magnitude :: "rat \<Rightarrow> rat" where
  "round_magnitude q =
     (let e = max (ilog2 q - 52) (- 1074)
      in of_int (round_half_even (q / pow2 e)) * pow2 e)"

text \<open>
  The binary64 result of an operation whose exact result is \<open>q\<close>: round to nearest,
  to an infinity when the rounded magnitude reaches \<open>2\<^sup>1\<^sup>0\<^sup>2\<^sup>4\<close>.
\<close>

definition round64 :: "rat \<Rightarrow> pyfloat" where
  "round64 q =
     (if q = 0 then Finite 0
      else if pow2 1024 \<le> round_magnitude \<bar>q\<bar> then (if 0 < q then PInf else NInf)
      else Finite (sgn q * round_magnitude \<bar>q\<bar>))"

text \<open>\<open>float(n)\<close>, as \<open>n * x\<close> converts its integer operand; too large an integer raises.\<close>

definition float_of_nat :: "nat \<Rightarrow> error + pyfloat" where
  "float_of_nat n = (case round64 (of_nat n) of Finite r \<Rightarrow> Inr (Finite r) | _ \<Rightarrow> Inl OverflowError)"

text \<open>\<open>1 - x\<close>.\<close>

definition one_minus :: "pyfloat \<Rightarrow> pyfloat" where
  "one_minus x = (case x of Finite q \<Rightarrow> round64 (1 - q) | PInf \<Rightarrow> NInf | NInf \<Rightarrow> PInf | NaN \<Rightarrow> NaN)"

definition float_sgn :: "pyfloat \<Rightarrow> rat" where
  "float_sgn x = (case x of Finite q \<Rightarrow> sgn q | PInf \<Rightarrow> 1 | NInf \<Rightarrow> - 1 | NaN \<Rightarrow> 0)"

definition signed_inf :: "rat \<Rightarrow> pyfloat" where
  "signed_inf a = (if a = 0 then NaN else if 0 < a then PInf else NInf)"

text \<open>\<open>x * y\<close>: the rounded product, and the rules of the infinities (zero times infinity is NaN).\<close>

fun float_mult :: "pyfloat \<Rightarrow> pyfloat \<Rightarrow> pyfloat" where
  "float_mult (Finite a) (Finite b) = round64 (a * b)"
| "float_mult NaN y = NaN"
| "float_mult x NaN = NaN"
| "float_mult x y = signed_inf (float_sgn x * float_sgn y)"

text \<open>
  \<open>int(x)\<close> truncates towards zero; it raises \<open>OverflowError\<close> on an infinity and
  \<open>ValueError\<close> on NaN.
\<close>

definition py_int :: "pyfloat \<Rightarrow> error + int" where
  "py_int x = (case x of Finite q \<Rightarrow> Inr (if 0 \<le> q then \<lfloor>q\<rfloor> else \<lceil>q\<rceil>)
                       | PInf \<Rightarrow> Inl OverflowError | NInf \<Rightarrow> Inl OverflowError
                       | NaN \<Rightarrow> Inl ValueError)"

text \<open>
  The float64 of a number of an int64 or float64 column: an integer beyond \<open>2\<^sup>5\<^sup>3\<close> is
  rounded, a float64 is itself. (No value of such a column rounds to an infinity.)
\<close>

definition upcast :: "rat \<Rightarrow> rat" where
  "upcast v = (case round64 v of Finite r \<Rightarrow> r | _ \<Rightarrow> v)"

subsection \<open>Python slices\<close>

text \<open>\<open>xs[:i]\<close> and \<open>xs[i:]\<close>: a negative bound counts from the end, and both clamp.\<close>

definition slice_to :: "int \<Rightarrow> 'a list \<Rightarrow> 'a list" where
  "slice_to i xs = (if i < 0 then take (nat (int (length xs) + i)) xs else take (nat i) xs)"

definition slice_from :: "int \<Rightarrow> 'a list \<Rightarrow> 'a list" where
  "slice_from i xs = (if i < 0 then drop (nat (int (length xs) + i)) xs else drop (nat i) xs)"

subsection \<open>Frame operations\<close>

text \<open>
  The cell of a row in a column. The notebook reads only columns it has created (a
  missing one would raise \<open>KeyError\<close>), so the fallback of the lookup is never taken
  on the frames of \<open>prepareData\<close>.
\<close>

definition cell_of :: "column \<Rightarrow> row \<Rightarrow> cell" where
  "cell_of c r = (case map_of (snd r) c of Some v \<Rightarrow> v | None \<Rightarrow> None)"

text \<open>\<open>data.c\<close>: the values of a column, in row order.\<close>

definition col :: "column \<Rightarrow> frame \<Rightarrow> cell list" where
  "col c df = map (cell_of c) df"

text \<open>
  \<open>data[c] = vs\<close>: an existing column is overwritten in place, a new one is appended.
  The notebook always assigns as many values as the frame has rows (pandas raises
  \<open>ValueError\<close> otherwise).
\<close>

definition assign :: "column \<Rightarrow> cell list \<Rightarrow> frame \<Rightarrow> frame" where
  "assign c vs df = map (\<lambda>((t, cs), v). (t, AList.update c v cs)) (zip df vs)"

text \<open>\<open>data.drop(ds, axis=1)\<close>, for columns \<open>ds\<close> that the frame has.\<close>

definition drop_columns :: "column list \<Rightarrow> frame \<Rightarrow> frame" where
  "drop_columns ds df = map (\<lambda>(t, cs). (t, filter (\<lambda>(c, v). c \<notin> set ds) cs)) df"

definition complete :: "row \<Rightarrow> bool" where
  "complete r = list_all (\<lambda>(c, v). v \<noteq> None) (snd r)"

text \<open>\<open>data.dropna()\<close>: keeps the rows without an undefined value, in order.\<close>

definition dropna :: "frame \<Rightarrow> frame" where
  "dropna df = filter complete df"

text \<open>
  \<open>s.shift(i)\<close>: position \<open>p\<close> receives the value of position \<open>p - i\<close>, undefined when
  that position is outside the series (at the start for positive \<open>i\<close>, at the end for
  negative \<open>i\<close>). To hold the undefined marker the result is a float64 column: the
  values of an int64 column are converted. A shift by 0 returns the column as it is.
\<close>

definition shift :: "int \<Rightarrow> cell list \<Rightarrow> cell list" where
  "shift i ys =
     (if i = 0 then ys
      else map (\<lambda>p. let q = int p - i in
                     if 0 \<le> q \<and> q < int (length ys) then map_option upcast (ys ! nat q) else None)
             [0..<length ys])"

subsection \<open>\<open>code_mean\<close>\<close>

text \<open>
  \<open>dict(data.groupby(cat_feature)[real_feature].mean())\<close>, read through \<open>.get\<close>: the
  mean of the defined values of the group (pandas skips NaN). A key without a group
  gives \<open>None\<close>, a group without a defined value gives NaN; both are the undefined
  marker of the model.
\<close>

definition group_values :: "frame \<Rightarrow> column \<Rightarrow> column \<Rightarrow> rat \<Rightarrow> rat list" where
  "group_values data cat_feature real_feature k =
     List.map_filter (cell_of real_feature)
       (filter (\<lambda>r. cell_of cat_feature r = Some k) data)"

definition mean :: "rat list \<Rightarrow> cell" where
  "mean vs = (if vs = [] then None else Some (sum_list vs / of_nat (length vs)))"

definition code_mean :: "frame \<Rightarrow> column \<Rightarrow> column \<Rightarrow> rat \<Rightarrow> cell" where
  "code_mean data cat_feature real_feature k = mean (group_values data cat_feature real_feature k)"

text \<open>\<open>list(map(d.get, column))\<close>.\<close>

definition map_get :: "(rat \<Rightarrow> cell) \<Rightarrow> cell list \<Rightarrow> cell list" where
  "map_get d ks = map (\<lambda>k. case k of None \<Rightarrow> None | Some x \<Rightarrow> d x) ks"

section \<open>The notebook's functions\<close>

text \<open>
  \<open>int(n * (1 - test_size))\<close>, the index after which the test set starts, in the
  floats of the notebook: \<open>test_size\<close> is a float, as the docstring of \<open>prepareData\<close>
  has it, and \<open>n\<close> is converted to one by the product.
\<close>

definition test_index_of :: "nat \<Rightarrow> pyfloat \<Rightarrow> error + int" where
  "test_index_of n test_size =
     (case float_of_nat n of
        Inl e \<Rightarrow> Inl e
      | Inr x \<Rightarrow> py_int (float_mult x (one_minus test_size)))"

definition timeseries_train_test_split ::
  "frame \<Rightarrow> series \<Rightarrow> pyfloat \<Rightarrow> error + (frame \<times> frame \<times> series \<times> series)" where
  "timeseries_train_test_split X y test_size =
     (case test_index_of (length X) test_size of
        Inl e \<Rightarrow> Inl e
      | Inr test_index \<Rightarrow>
          Inr (slice_to test_index X, slice_from test_index X,
               slice_to test_index y, slice_from test_index y))"

text \<open>Lines 127 to 132 of \<open>prepareData\<close>: the copy with its column named \<open>y\<close>, and the lags.\<close>

definition add_lag :: "frame \<Rightarrow> int \<Rightarrow> frame" where
  "add_lag data i = assign (Lag i) (shift i (col Y data)) data"

definition with_lags :: "series \<Rightarrow> int \<Rightarrow> int \<Rightarrow> frame" where
  "with_lags series lag_start lag_end =
     foldl add_lag (map (\<lambda>(t, v). (t, [(Y, v)])) series) [lag_start..lag_end - 1]"

text \<open>Lines 136 to 138: the datetime features, read from the index.\<close>

definition with_datetime :: "frame \<Rightarrow> frame" where
  "with_datetime data =
     (let d1 = assign Hour (map (\<lambda>r. Some (of_int (hour_of (fst r)))) data) data;
          d2 = assign Weekday (map (\<lambda>r. Some (of_int (weekday_of (fst r)))) d1) d1
      in assign Is_weekend
           (map (\<lambda>w. if w = Some 5 \<or> w = Some 6 then Some 1 else Some 0) (col Weekday d2)) d2)"

text \<open>Lines 143 to 149: the target encoding, once \<open>test_index\<close> is known.\<close>

definition encode :: "frame \<Rightarrow> int \<Rightarrow> frame" where
  "encode data test_index =
     (let d1 = assign Weekday_average
                 (map_get (code_mean (slice_to test_index data) Weekday Y) (col Weekday data)) data;
          d2 = assign Hour_average
                 (map_get (code_mean (slice_to test_index d1) Hour Y) (col Hour d1)) d1
      in drop_columns [Hour, Weekday] d2)"

text \<open>Lines 140 to 149: \<open>test_index\<close> of line 142, which may raise, and the encoding.\<close>

definition with_target_encoding :: "frame \<Rightarrow> pyfloat \<Rightarrow> error + frame" where
  "with_target_encoding data test_size =
     (case test_index_of (length (dropna data)) test_size of
        Inl e \<Rightarrow> Inl e
      | Inr test_index \<Rightarrow> Inr (encode data test_index))"

text \<open>The frame \<open>data\<close> as it stands before the train-test split (lines 126 to 149).\<close>

definition features :: "series \<Rightarrow> int \<Rightarrow> int \<Rightarrow> pyfloat \<Rightarrow> bool \<Rightarrow> error + frame" where
  "features series lag_start lag_end test_size target_encoding =
     (let data = with_datetime (with_lags series lag_start lag_end)
      in if target_encoding then with_target_encoding data test_size else Inr data)"

definition y_of :: "frame \<Rightarrow> series" where
  "y_of df = map (\<lambda>r. (fst r, cell_of Y r)) df"

definition prepareData ::
  "series \<Rightarrow> int \<Rightarrow> int \<Rightarrow> pyfloat \<Rightarrow> bool \<Rightarrow> error + (frame \<times> frame \<times> series \<times> series)" where
  "prepareData series lag_start lag_end test_size target_encoding =
     (case features series lag_start lag_end test_size target_encoding of
        Inl e \<Rightarrow> Inl e
      | Inr data \<Rightarrow>
          timeseries_train_test_split (drop_columns [Y] (dropna data)) (y_of (dropna data))
            test_size)"

text \<open>
  \<open>prepareData\<close> has no \<open>raise\<close> statement and checks none of its arguments; the
  only statements of it that can raise are the two calls of \<open>int()\<close>, at line 142 and
  at line 36. \<open>build\<close> is the specification's name of the call.
\<close>

definition build ::
  "series \<Rightarrow> int \<Rightarrow> int \<Rightarrow> pyfloat \<Rightarrow> bool \<Rightarrow> error + (frame \<times> frame \<times> series \<times> series)" where
  "build series lag_start lag_end test_fraction use_target_encoding =
     prepareData series lag_start lag_end test_fraction use_target_encoding"

subsection \<open>\<open>prepareData\<close> over a store of objects\<close>

text \<open>
  The caller's series is an object of the interpreter; \<open>series.copy()\<close> allocates a new
  one, \<open>pd.DataFrame(...)\<close> wraps it, and every later statement of \<open>prepareData\<close> that
  mutates (\<open>data.columns = ...\<close>, \<open>data[c] = ...\<close>, \<open>data.drop(..., inplace=True)\<close>)
  goes to that new object. The store is the list of live objects, a reference is a
  position in it.
\<close>

datatype obj = Series_obj series | Frame_obj frame

type_synonym store = "obj list"

definition alloc :: "obj \<Rightarrow> store \<Rightarrow> nat \<times> store" where
  "alloc x \<sigma> = (length \<sigma>, \<sigma> @ [x])"

text \<open>Reading an object as a frame; for a series this names its one column \<open>y\<close>.\<close>

definition frame_at :: "store \<Rightarrow> nat \<Rightarrow> frame" where
  "frame_at \<sigma> a = (case \<sigma> ! a of Frame_obj f \<Rightarrow> f
                              | Series_obj s \<Rightarrow> map (\<lambda>(t, v). (t, [(Y, v)])) s)"

definition mutate :: "nat \<Rightarrow> (frame \<Rightarrow> frame) \<Rightarrow> store \<Rightarrow> store" where
  "mutate a f \<sigma> = \<sigma>[a := Frame_obj (f (frame_at \<sigma> a))]"

text \<open>Lines 152 to 157: the split reads \<open>data\<close> and builds new frames.\<close>

definition split_st ::
  "nat \<Rightarrow> pyfloat \<Rightarrow> store \<Rightarrow> (error + (frame \<times> frame \<times> series \<times> series)) \<times> store" where
  "split_st data test_size \<sigma> =
     (timeseries_train_test_split (drop_columns [Y] (dropna (frame_at \<sigma> data)))
        (y_of (dropna (frame_at \<sigma> data))) test_size, \<sigma>)"

text \<open>
  The statements of \<open>prepareData\<close> in their order: the copy, the column renamed to
  \<open>y\<close>, one assignment for each lag, the datetime columns, the encoding under its flag
  (an exception of line 142 leaves the store as it is then), and the split.
\<close>

definition prepareData_st ::
  "nat \<Rightarrow> int \<Rightarrow> int \<Rightarrow> pyfloat \<Rightarrow> bool \<Rightarrow> store
     \<Rightarrow> (error + (frame \<times> frame \<times> series \<times> series)) \<times> store" where
  "prepareData_st series_ref lag_start lag_end test_size target_encoding \<sigma> =
     (let (data, \<sigma>1) = alloc (\<sigma> ! series_ref) \<sigma>;
          \<sigma>2 = mutate data (\<lambda>d. d) \<sigma>1;
          \<sigma>3 = foldl (\<lambda>s i. mutate data (\<lambda>d. add_lag d i) s) \<sigma>2 [lag_start..lag_end - 1];
          \<sigma>4 = mutate data with_datetime \<sigma>3
      in if target_encoding
         then (case test_index_of (length (dropna (frame_at \<sigma>4 data))) test_size of
                 Inl e \<Rightarrow> (Inl e, \<sigma>4)
               | Inr test_index \<Rightarrow>
                   split_st data test_size (mutate data (\<lambda>d. encode d test_index) \<sigma>4))
         else split_st data test_size \<sigma>4)"

section \<open>The moving average of the second notebook\<close>

text \<open>\<open>np.average\<close> of no value is NaN (with a warning), not an exception.\<close>

definition moving_average :: "rat list \<Rightarrow> int \<Rightarrow> cell" where
  "moving_average series n = mean (slice_from (- n) series)"

section \<open>The frame in closed form\<close>

text \<open>
  The definitions of this section are not in the notebooks: they name the cells that
  \<open>prepareData\<close> is proved to put in row \<open>p\<close> of its frame, so that the properties
  below can speak of them.
\<close>

text \<open>The target and the lags \<open>ks\<close> of row \<open>p\<close>.\<close>

definition base_cells :: "series \<Rightarrow> int list \<Rightarrow> nat \<Rightarrow> (column \<times> cell) list" where
  "base_cells s ks p = (Y, snd (s ! p)) # map (\<lambda>k. (Lag k, shift k (map snd s) ! p)) ks"

definition weekend_cell :: "int \<Rightarrow> cell" where
  "weekend_cell t = (if weekday_of t = 5 \<or> weekday_of t = 6 then Some 1 else Some 0)"

definition datetime_cells :: "int \<Rightarrow> (column \<times> cell) list" where
  "datetime_cells t =
     [(Hour, Some (of_int (hour_of t))), (Weekday, Some (of_int (weekday_of t))),
      (Is_weekend, weekend_cell t)]"

text \<open>The defined target values of the rows of \<open>train\<close> whose timestamp falls in group \<open>w\<close>.\<close>

definition series_group_values :: "(int \<Rightarrow> int) \<Rightarrow> series \<Rightarrow> int \<Rightarrow> rat list" where
  "series_group_values f train w = List.map_filter snd (filter (\<lambda>(t, v). f t = w) train)"

text \<open>The value of \<open>test_index\<close> at line 142, or the exception of \<open>int()\<close> there.\<close>

definition encoding_index :: "series \<Rightarrow> int \<Rightarrow> int \<Rightarrow> pyfloat \<Rightarrow> error + int" where
  "encoding_index s ls le ts = test_index_of (length (dropna (with_datetime (with_lags s ls le)))) ts"

text \<open>The cells that replace the datetime cells when \<open>target_encoding\<close> is set.\<close>

definition encoded_cells :: "series \<Rightarrow> int \<Rightarrow> (column \<times> cell) list" where
  "encoded_cells train t =
     [(Is_weekend, weekend_cell t),
      (Weekday_average, mean (series_group_values weekday_of train (weekday_of t))),
      (Hour_average, mean (series_group_values hour_of train (hour_of t)))]"

text \<open>
  The frame whose row \<open>p\<close> has the timestamp of the series at \<open>p\<close>, the target and
  the lags \<open>ks\<close>, and then the cells \<open>extra\<close> of that timestamp.
\<close>

definition closed_frame :: "series \<Rightarrow> int list \<Rightarrow> (int \<Rightarrow> (column \<times> cell) list) \<Rightarrow> frame" where
  "closed_frame s ks extra =
     map (\<lambda>p. (fst (s ! p), base_cells s ks p @ extra (fst (s ! p)))) [0..<length s]"

text \<open>A series of three hourly points, and the test row that \<open>prepareData\<close> makes of it.\<close>

definition small_series :: series where
  "small_series = [(0, Some 5), (3600000000000, Some 7), (7200000000000, Some 11)]"

definition small_row :: row where
  "small_row = (7200000000000, [(Lag 1, Some 7), (Hour, Some 2), (Weekday, Some 3), (Is_weekend, Some 0)])"

text \<open>
  Five points on one weekday, at hours 0, 1, 0, 1 and 2 (the last three a week after
  the first two).
\<close>

definition weekly_series :: series where
  "weekly_series = [(0, Some 10), (3600000000000, Some 20), (604800000000000, Some 30),
                    (608400000000000, Some 40), (612000000000000, Some 50)]"

text \<open>\<open>n\<close> hourly points from time \<open>t0\<close> on, with the values \<open>v[i] = i\<close>.\<close>

definition hourly_series :: "int \<Rightarrow> nat \<Rightarrow> series" where
  "hourly_series t0 n = map (\<lambda>i. (t0 + int i * 3600000000000, Some (of_nat i))) [0..<n]"

text \<open>Ten hourly points \<open>v[i] = i\<close> from time 0, with the target at index 3 set to \<open>v\<close>.\<close>

definition leak_series :: "rat \<Rightarrow> series" where
  "leak_series v = (hourly_series 0 10)[3 := (10800000000000, Some v)]"



section \<open>Lemmas on floats\<close>

subsection \<open>Powers of two and rounding\<close>

lemma pow2_eq: "pow2 e = 2 powi e"
proof (cases "0 \<le> e")
  case True
  then show ?thesis by (simp add: pow2_def power_int_def)
next
  case False
  have "(1 :: rat) / 2 ^ nat (- e) = inverse 2 ^ nat (- e)"
    by (simp add: power_one_over inverse_eq_divide)
  with False show ?thesis by (simp add: pow2_def power_int_def)
qed

lemma pow2_pos: "0 < pow2 e"
  by (simp add: pow2_eq)

lemma pow2_mono: "e \<le> e' \<Longrightarrow> pow2 e \<le> pow2 e'"
  by (simp add: pow2_eq power_int_increasing)

lemma pow2_strict_mono: "e < e' \<Longrightarrow> pow2 e < pow2 e'"
  by (simp add: pow2_eq power_int_strict_increasing)

lemma pow2_add: "pow2 (e + e') = pow2 e * pow2 e'"
  by (simp add: pow2_eq power_int_add)

lemma pow2_nat: "0 \<le> e \<Longrightarrow> pow2 e = of_int (2 ^ nat e)"
  by (simp add: pow2_def)

lemma ilog2_le:
  assumes "0 < q"
  shows "pow2 (ilog2 q) \<le> q"
proof -
  obtain a b where ab: "quotient_of q = (a, b)" by (cases "quotient_of q")
  then have b: "0 < b" and q: "q = of_int a / of_int b"
    by (simp_all add: quotient_of_denom_pos quotient_of_div)
  with assms have a: "0 < a"
    by (simp add: zero_less_divide_iff)
  let ?d = "bitlen a - bitlen b"
  show ?thesis
  proof (cases "pow2 ?d \<le> q")
    case True
    then show ?thesis by (simp add: ilog2_def ab)
  next
    case False
    have la: "2 ^ nat (bitlen a - 1) \<le> a" and lb: "b < 2 ^ nat (bitlen b)"
      using bitlen_bounds [OF a] bitlen_bounds [OF b] by simp_all
    have la1: "1 \<le> bitlen a" and lb1: "0 \<le> bitlen b"
      using a bitlen_nonneg [of b] by (simp_all add: bitlen_alt_def)
    have "pow2 (?d - 1) = pow2 (bitlen a - 1) * pow2 (- bitlen b)"
      using pow2_add [of "bitlen a - 1" "- bitlen b"] by (simp add: algebra_simps)
    also have "\<dots> = of_int (2 ^ nat (bitlen a - 1)) / of_int (2 ^ nat (bitlen b))"
      using la1 lb1 by (simp add: pow2_def divide_inverse)
    also have "\<dots> \<le> of_int a / of_int b"
    proof (rule frac_le)
      show "(0::rat) \<le> of_int a" using a by simp
      show "(of_int (2 ^ nat (bitlen a - 1)) :: rat) \<le> of_int a" using la by (simp only: of_int_le_iff)
      show "(0::rat) < of_int b" using b by simp
      show "(of_int b :: rat) \<le> of_int (2 ^ nat (bitlen b))" using lb by (simp only: of_int_le_iff)
    qed
    finally have "pow2 (?d - 1) \<le> q" by (simp add: q)
    with False show ?thesis by (simp add: ilog2_def ab)
  qed
qed

lemma round_half_even_cases: "round_half_even m = \<lfloor>m\<rfloor> \<or> round_half_even m = \<lfloor>m\<rfloor> + 1"
  by (simp add: round_half_even_def Let_def)

lemma round_half_even_le: "of_int (round_half_even m) \<le> m + 1"
proof -
  have f: "of_int \<lfloor>m\<rfloor> \<le> m" by (rule of_int_floor_le)
  from round_half_even_cases [of m] show ?thesis
  proof
    assume "round_half_even m = \<lfloor>m\<rfloor>"
    then have "(of_int (round_half_even m) :: rat) = of_int \<lfloor>m\<rfloor>" by (simp only:)
    with f show ?thesis by linarith
  next
    assume "round_half_even m = \<lfloor>m\<rfloor> + 1"
    then have "(of_int (round_half_even m) :: rat) = of_int \<lfloor>m\<rfloor> + 1" by (simp only: of_int_add of_int_1)
    with f show ?thesis by linarith
  qed
qed

lemma round_half_even_nonneg: "0 \<le> m \<Longrightarrow> 0 \<le> round_half_even m"
  using round_half_even_cases [of m] zero_le_floor [of m] by auto

lemma round_half_even_of_int: "round_half_even (of_int k) = k"
  by (simp add: round_half_even_def)

lemma round_magnitude_bounds:
  assumes "0 < q"
  shows "0 \<le> round_magnitude q" and "round_magnitude q \<le> 2 * q + 1"
proof -
  define e where "e = max (ilog2 q - 52) (- 1074)"
  have rm: "round_magnitude q = of_int (round_half_even (q / pow2 e)) * pow2 e"
    by (simp add: round_magnitude_def e_def Let_def)
  have P: "0 < pow2 e" by (rule pow2_pos)
  then have "0 \<le> q / pow2 e" using assms by simp
  then have "0 \<le> round_half_even (q / pow2 e)" by (rule round_half_even_nonneg)
  then show "0 \<le> round_magnitude q" using P by (simp add: rm)
  have "pow2 e \<le> q + 1"
  proof (cases "ilog2 q - 52 \<le> - 1074")
    case True
    then have "e = - 1074" by (simp add: e_def)
    then have "pow2 e \<le> pow2 0" by (intro pow2_mono) simp
    then show ?thesis using assms by (simp add: pow2_def)
  next
    case False
    then have "e = ilog2 q - 52" by (simp add: e_def)
    then have "pow2 e \<le> pow2 (ilog2 q)" by (intro pow2_mono) simp
    with ilog2_le [OF assms] show ?thesis by simp
  qed
  moreover have "of_int (round_half_even (q / pow2 e)) * pow2 e \<le> (q / pow2 e + 1) * pow2 e"
    using P round_half_even_le [of "q / pow2 e"] by (intro mult_right_mono) simp_all
  moreover have "(q / pow2 e + 1) * pow2 e = q + pow2 e"
    using P by (simp add: field_simps)
  ultimately show "round_magnitude q \<le> 2 * q + 1" by (simp add: rm)
qed

lemma round64_Finite:
  assumes "2 * \<bar>q\<bar> + 1 < pow2 1024"
  shows "\<exists>r. round64 q = Finite r \<and> \<bar>r\<bar> \<le> 2 * \<bar>q\<bar> + 1 \<and> (0 \<le> q \<longrightarrow> 0 \<le> r) \<and> (q \<le> 0 \<longrightarrow> r \<le> 0)"
proof (cases "q = 0")
  case True
  then show ?thesis by (simp add: round64_def)
next
  case False
  define R where "R = round_magnitude \<bar>q\<bar>"
  from False have pos: "0 < \<bar>q\<bar>" by simp
  have b: "0 \<le> R" "R \<le> 2 * \<bar>q\<bar> + 1"
    unfolding R_def by (rule round_magnitude_bounds [OF pos])+
  from b(2) assms have "\<not> pow2 1024 \<le> R" by simp
  then have 1: "round64 q = Finite (sgn q * R)"
    using False unfolding R_def by (simp add: round64_def)
  have "\<bar>sgn q\<bar> = 1" using False by (simp add: sgn_if)
  then have 2: "\<bar>sgn q * R\<bar> \<le> 2 * \<bar>q\<bar> + 1"
    using b by (simp add: abs_mult)
  have 3: "0 \<le> sgn q * R" if "0 \<le> q"
  proof -
    from that False have "sgn q = 1" by (simp add: sgn_if)
    with b(1) show ?thesis by simp
  qed
  have 4: "sgn q * R \<le> 0" if "q \<le> 0"
  proof -
    from that False have "sgn q = - 1" by (simp add: sgn_if)
    with b(1) show ?thesis by simp
  qed
  from 1 2 3 4 show ?thesis by blast
qed

subsection \<open>Values that rounding leaves as they are\<close>

lemma round64_dyadic:
  assumes k: "\<bar>k\<bar> < 2 ^ 53" and j: "- 1074 \<le> j" "j \<le> 970"
  shows "round64 (of_int k * pow2 j) = Finite (of_int k * pow2 j)"
proof (cases "k = 0")
  case True
  then show ?thesis by (simp add: round64_def)
next
  case False
  define n where "n = \<bar>k\<bar>"
  define q where "q = (of_int n :: rat) * pow2 j"
  have n: "0 < n" "n < 2 ^ 53" using False k by (simp_all add: n_def)
  have Pj: "0 < pow2 j" by (rule pow2_pos)
  have q: "0 < q" using n(1) Pj by (simp add: q_def)
  have absq: "\<bar>of_int k * pow2 j\<bar> = q"
    using Pj by (simp add: q_def n_def abs_mult)
  have "(of_int n :: rat) < of_int (2 ^ 53)" using n(2) by (simp only: of_int_less_iff)
  then have "q < of_int (2 ^ 53) * pow2 j"
    unfolding q_def using Pj by (intro mult_strict_right_mono)
  also have "\<dots> = pow2 (53 + j)"
    using pow2_add [of 53 j] by (simp add: pow2_def)
  finally have qlt: "q < pow2 (53 + j)" .
  have il: "ilog2 q < 53 + j"
  proof (rule ccontr)
    assume "\<not> ilog2 q < 53 + j"
    then have "pow2 (53 + j) \<le> pow2 (ilog2 q)" by (intro pow2_mono) simp
    with ilog2_le [OF q] qlt show False by simp
  qed
  define e where "e = max (ilog2 q - 52) (- 1074)"
  have e: "e \<le> j" using il j(1) by (simp add: e_def)
  have Pe: "0 < pow2 e" by (rule pow2_pos)
  have split: "pow2 j = pow2 (j - e) * pow2 e"
    using pow2_add [of "j - e" e] by simp
  have "q / pow2 e = of_int n * pow2 (j - e)"
    using Pe by (simp add: q_def split)
  also have "\<dots> = of_int (n * 2 ^ nat (j - e))"
    using e by (simp add: pow2_nat)
  finally have m: "q / pow2 e = of_int (n * 2 ^ nat (j - e))" .
  have "round_magnitude q = of_int (n * 2 ^ nat (j - e)) * pow2 e"
    unfolding round_magnitude_def Let_def e_def [symmetric] m round_half_even_of_int ..
  also have "\<dots> = of_int n * (pow2 (j - e) * pow2 e)"
    using e by (simp add: pow2_nat)
  also have "\<dots> = q"
    by (simp only: split [symmetric] q_def)
  finally have rm: "round_magnitude q = q" .
  have "pow2 (53 + j) \<le> pow2 1024" using j(2) by (intro pow2_mono) simp
  with qlt have fin: "\<not> pow2 1024 \<le> q" by simp
  have nz: "of_int k * pow2 j \<noteq> 0" using False Pj by simp
  have "sgn (of_int k * pow2 j) * q = of_int k * pow2 j"
    using mult_sgn_abs [of "of_int k * pow2 j"] by (simp only: absq)
  then show ?thesis
    using nz fin by (simp add: round64_def absq rm)
qed

lemma round64_of_int: "\<bar>k\<bar> < 2 ^ 53 \<Longrightarrow> round64 (of_int k) = Finite (of_int k)"
  using round64_dyadic [of k 0] by (simp add: pow2_def)

lemma round64_of_nat: "n < 2 ^ 53 \<Longrightarrow> round64 (of_nat n) = Finite (of_nat n)"
  using round64_of_int [of "int n"] by simp

lemma round64_half: "\<bar>k\<bar> < 2 ^ 53 \<Longrightarrow> round64 (of_int k / 2) = Finite (of_int k / 2)"
  using round64_dyadic [of k "- 1"] by (simp add: pow2_def)

lemma upcast_of_int: "\<bar>k\<bar> < 2 ^ 53 \<Longrightarrow> upcast (of_int k) = of_int k"
  by (simp add: upcast_def round64_of_int)

lemma float_of_nat_exact: "n < 2 ^ 53 \<Longrightarrow> float_of_nat n = Inr (Finite (of_nat n))"
  by (simp add: float_of_nat_def round64_of_nat)

subsection \<open>Rounding against an integer\<close>

lemma round_half_even_le_int:
  assumes "m \<le> of_int M"
  shows "round_half_even m \<le> M"
proof (cases "m = of_int M")
  case True
  then show ?thesis by (simp add: round_half_even_of_int)
next
  case False
  with assms have "m < of_int M" by simp
  then have "\<lfloor>m\<rfloor> < M" by (simp add: floor_less_iff)
  with round_half_even_cases [of m] show ?thesis by auto
qed

lemma round_half_even_ge_int:
  assumes "of_int M \<le> m"
  shows "M \<le> round_half_even m"
proof -
  from assms have "M \<le> \<lfloor>m\<rfloor>" by (simp add: le_floor_iff)
  with round_half_even_cases [of m] show ?thesis by auto
qed

lemma pow2_scale:
  assumes "e \<le> 0"
  shows "(of_int m :: rat) / pow2 e = of_int (m * 2 ^ nat (- e))"
    and "(of_int (m * 2 ^ nat (- e)) :: rat) * pow2 e = of_int m"
proof -
  have "pow2 e * of_int (2 ^ nat (- e)) = pow2 e * pow2 (- e)"
    using assms by (simp add: pow2_nat)
  also have "\<dots> = 1"
    using pow2_add [of e "- e"] by (simp add: pow2_def)
  finally have 1: "pow2 e * of_int (2 ^ nat (- e)) = 1" .
  have P: "pow2 e \<noteq> 0" using pow2_pos [of e] by simp
  from 1 P have "(of_int (2 ^ nat (- e)) :: rat) = 1 / pow2 e"
    by (simp add: field_simps)
  then show "(of_int m :: rat) / pow2 e = of_int (m * 2 ^ nat (- e))"
    by simp
  from 1 show "(of_int (m * 2 ^ nat (- e)) :: rat) * pow2 e = of_int m"
    by (simp add: mult.assoc mult.commute)
qed

lemma round64_le_int:
  assumes q: "0 < q" "q \<le> of_int m" and m: "m < 2 ^ 53"
  shows "\<exists>r. round64 q = Finite r \<and> 0 \<le> r \<and> r \<le> of_int m"
proof -
  define e where "e = max (ilog2 q - 52) (- 1074)"
  have rm: "round_magnitude q = of_int (round_half_even (q / pow2 e)) * pow2 e"
    by (simp add: round_magnitude_def e_def Let_def)
  have Pe: "0 < pow2 e" by (rule pow2_pos)
  have "(of_int m :: rat) < of_int (2 ^ 53)" using m by (simp only: of_int_less_iff)
  also have "\<dots> = pow2 53" by (simp add: pow2_def)
  finally have "q < pow2 53" using q(2) by simp
  have "ilog2 q < 53"
  proof (rule ccontr)
    assume "\<not> ilog2 q < 53"
    then have "pow2 53 \<le> pow2 (ilog2 q)" by (intro pow2_mono) simp
    with ilog2_le [OF q(1)] \<open>q < pow2 53\<close> show False by simp
  qed
  then have e: "e \<le> 0" by (simp add: e_def)
  have "q / pow2 e \<le> of_int m / pow2 e"
    using q(2) Pe by (simp add: divide_right_mono)
  then have "q / pow2 e \<le> of_int (m * 2 ^ nat (- e))"
    by (simp only: pow2_scale(1) [OF e])
  then have "round_half_even (q / pow2 e) \<le> m * 2 ^ nat (- e)"
    by (rule round_half_even_le_int)
  then have "(of_int (round_half_even (q / pow2 e)) :: rat) \<le> of_int (m * 2 ^ nat (- e))"
    by (simp only: of_int_le_iff)
  then have "of_int (round_half_even (q / pow2 e)) * pow2 e \<le> of_int (m * 2 ^ nat (- e)) * pow2 e"
    using Pe by (intro mult_right_mono) simp_all
  then have le: "round_magnitude q \<le> of_int m"
    by (simp only: rm pow2_scale(2) [OF e])
  have nn: "0 \<le> round_magnitude q" by (rule round_magnitude_bounds(1) [OF q(1)])
  have "pow2 53 \<le> pow2 1024" by (intro pow2_mono) simp
  with le \<open>(of_int m :: rat) < of_int (2 ^ 53)\<close> \<open>(of_int (2 ^ 53) :: rat) = pow2 53\<close>
  have "\<not> pow2 1024 \<le> round_magnitude q" by linarith
  then have "round64 q = Finite (round_magnitude q)"
    using q(1) by (simp add: round64_def)
  with le nn show ?thesis by blast
qed

lemma round64_ge_int:
  assumes m: "0 < m" "m < 2 ^ 53" and q: "of_int m \<le> q" and fin: "2 * q + 1 < pow2 1024"
  shows "\<exists>r. round64 q = Finite r \<and> of_int m \<le> r"
proof -
  have qpos: "0 < q" using m(1) q by (metis less_le_trans of_int_0_less_iff)
  define e where "e = max (ilog2 q - 52) (- 1074)"
  have rm: "round_magnitude q = of_int (round_half_even (q / pow2 e)) * pow2 e"
    by (simp add: round_magnitude_def e_def Let_def)
  have Pe: "0 < pow2 e" by (rule pow2_pos)
  have ge: "of_int m \<le> round_magnitude q"
  proof (cases "e \<le> 0")
    case True
    have "of_int m / pow2 e \<le> q / pow2 e"
      using q Pe by (simp add: divide_right_mono)
    then have "of_int (m * 2 ^ nat (- e)) \<le> q / pow2 e"
      by (simp only: pow2_scale(1) [OF True])
    then have "m * 2 ^ nat (- e) \<le> round_half_even (q / pow2 e)"
      by (rule round_half_even_ge_int)
    then have "(of_int (m * 2 ^ nat (- e)) :: rat) \<le> of_int (round_half_even (q / pow2 e))"
      by (simp only: of_int_le_iff)
    then have "of_int (m * 2 ^ nat (- e)) * pow2 e \<le> of_int (round_half_even (q / pow2 e)) * pow2 e"
      using Pe by (intro mult_right_mono) simp_all
    then show ?thesis
      by (simp only: rm pow2_scale(2) [OF True])
  next
    case False
    then have e: "e = ilog2 q - 52" "1 \<le> e" by (simp_all add: e_def max_def split: if_splits)
    have "pow2 52 * pow2 e = pow2 (ilog2 q)"
      using pow2_add [of 52 e] by (simp add: e(1))
    also have "\<dots> \<le> q" by (rule ilog2_le [OF qpos])
    finally have "pow2 52 \<le> q / pow2 e"
      using Pe by (simp add: pos_le_divide_eq)
    moreover have "pow2 52 = of_int (2 ^ 52)" by (simp add: pow2_def)
    ultimately have "of_int (2 ^ 52) \<le> q / pow2 e" by simp
    then have "2 ^ 52 \<le> round_half_even (q / pow2 e)"
      by (rule round_half_even_ge_int)
    then have "(of_int (2 ^ 52) :: rat) \<le> of_int (round_half_even (q / pow2 e))"
      by (simp only: of_int_le_iff)
    moreover have "pow2 1 \<le> pow2 e" using e(2) by (intro pow2_mono)
    then have "2 \<le> pow2 e" by (simp add: pow2_def)
    ultimately have "of_int (2 ^ 52) * 2 \<le> of_int (round_half_even (q / pow2 e)) * pow2 e"
      by (intro mult_mono) simp_all
    then have "(of_int (2 ^ 53) :: rat) \<le> round_magnitude q"
      by (simp add: rm)
    moreover have "(of_int m :: rat) < of_int (2 ^ 53)" using m(2) by (simp only: of_int_less_iff)
    ultimately show ?thesis by linarith
  qed
  have "\<bar>q\<bar> = q" using qpos by simp
  with fin have "2 * \<bar>q\<bar> + 1 < pow2 1024" by simp
  from round64_Finite [OF this] obtain r where r: "round64 q = Finite r" by blast
  then have "r = round_magnitude q"
    using qpos by (simp add: round64_def split: if_splits)
  with r ge show ?thesis by blast
qed

subsection \<open>The index \<open>int(n * (1 - test_size))\<close>\<close>

lemma test_index_zero: "n < 2 ^ 53 \<Longrightarrow> test_index_of n (Finite 0) = Inr (int n)"
  using round64_of_int [of 1] round64_of_nat [of n]
  by (simp add: test_index_of_def float_of_nat_exact one_minus_def py_int_def)

lemma test_index_one: "n < 2 ^ 53 \<Longrightarrow> test_index_of n (Finite 1) = Inr 0"
  by (simp add: test_index_of_def float_of_nat_exact one_minus_def py_int_def round64_def)

lemma test_index_half: "n < 2 ^ 53 \<Longrightarrow> test_index_of n (Finite (1 / 2)) = Inr (int n div 2)"
proof -
  assume n: "n < 2 ^ 53"
  have 1: "one_minus (Finite (1 / 2)) = Finite (1 / 2)"
    using round64_half [of 1] by (simp add: one_minus_def)
  have 2: "round64 (of_nat n / 2) = Finite (of_nat n / 2)"
    using round64_half [of "int n"] n by simp
  have "\<lfloor>(of_nat n :: rat) / 2\<rfloor> = int n div 2"
    using floor_divide_of_int_eq [of "int n" 2, where ?'a = rat] by simp
  then show ?thesis
    by (simp add: test_index_of_def float_of_nat_exact [OF n] 1 2 py_int_def)
qed

lemma test_index_nan: "n < 2 ^ 53 \<Longrightarrow> test_index_of n NaN = Inl ValueError"
  by (simp add: test_index_of_def float_of_nat_exact one_minus_def py_int_def)

lemma test_index_inf:
  "0 < n \<Longrightarrow> n < 2 ^ 53 \<Longrightarrow> test_index_of n PInf = Inl OverflowError"
  "0 < n \<Longrightarrow> n < 2 ^ 53 \<Longrightarrow> test_index_of n NInf = Inl OverflowError"
  by (simp_all add: test_index_of_def float_of_nat_exact one_minus_def py_int_def
      signed_inf_def float_sgn_def)

lemma py_int_error: "py_int x = Inl e \<Longrightarrow> e = OverflowError \<or> e = ValueError"
  by (cases x) (simp_all add: py_int_def)

lemma test_index_error: "test_index_of n ts = Inl e \<Longrightarrow> e = OverflowError \<or> e = ValueError"
  unfolding test_index_of_def float_of_nat_def
  by (auto split: sum.splits pyfloat.splits dest: py_int_error)

lemma test_index_inf_zero:
  "test_index_of 0 PInf = Inl ValueError" "test_index_of 0 NInf = Inl ValueError"
  by (simp_all add: test_index_of_def float_of_nat_def round64_def one_minus_def py_int_def
      signed_inf_def float_sgn_def)

lemma test_index_infinite:
  assumes "n < 2 ^ 53" and "ts = PInf \<or> ts = NInf"
  shows "test_index_of n ts = Inl (if n = 0 then ValueError else OverflowError)"
  using assms test_index_inf [of n] test_index_inf_zero by auto

lemma test_index_returns:
  assumes n: "n < 2 ^ 53" and q: "\<bar>q\<bar> \<le> pow2 900"
  shows "\<exists>b. test_index_of n (Finite q) = Inr b \<and> (q \<le> 1 \<longrightarrow> 0 \<le> b)"
proof -
  have c1: "2 * (1 + pow2 900) + 1 < pow2 1024"
    and c2: "2 * (2 ^ 53 * (2 * (1 + pow2 900) + 1)) + 1 < pow2 1024"
    by (simp_all add: pow2_def)
  have "\<bar>1 - q\<bar> \<le> 1 + pow2 900" using q by linarith
  then have b1: "2 * \<bar>1 - q\<bar> + 1 \<le> 2 * (1 + pow2 900) + 1" by simp
  with c1 have "2 * \<bar>1 - q\<bar> + 1 < pow2 1024" by linarith
  from round64_Finite [OF this] obtain r1 where r1: "round64 (1 - q) = Finite r1"
    and r1b: "\<bar>r1\<bar> \<le> 2 * \<bar>1 - q\<bar> + 1" and r1s: "0 \<le> 1 - q \<longrightarrow> 0 \<le> r1"
    by blast
  from r1b b1 have r1c: "\<bar>r1\<bar> \<le> 2 * (1 + pow2 900) + 1" by linarith
  have "(of_nat n :: rat) \<le> 2 ^ 53"
    using n by (metis less_imp_le of_nat_le_iff of_nat_numeral of_nat_power)
  then have "of_nat n * \<bar>r1\<bar> \<le> 2 ^ 53 * (2 * (1 + pow2 900) + 1)"
    using r1c by (intro mult_mono) simp_all
  then have "\<bar>of_nat n * r1\<bar> \<le> 2 ^ 53 * (2 * (1 + pow2 900) + 1)"
    by (simp add: abs_mult)
  with c2 have "2 * \<bar>of_nat n * r1\<bar> + 1 < pow2 1024" by linarith
  from round64_Finite [OF this] obtain r2 where r2: "round64 (of_nat n * r1) = Finite r2"
    and r2s: "0 \<le> of_nat n * r1 \<longrightarrow> 0 \<le> r2"
    by blast
  have idx: "test_index_of n (Finite q) = Inr (if 0 \<le> r2 then \<lfloor>r2\<rfloor> else \<lceil>r2\<rceil>)"
    by (simp add: test_index_of_def float_of_nat_exact [OF n] one_minus_def r1 r2 py_int_def)
  have "0 \<le> (if 0 \<le> r2 then \<lfloor>r2\<rfloor> else \<lceil>r2\<rceil>)" if "q \<le> 1"
  proof -
    from that r1s have "0 \<le> r1" by simp
    then have "0 \<le> of_nat n * r1" by simp
    with r2s have "0 \<le> r2" by simp
    then show ?thesis by simp
  qed
  with idx show ?thesis by blast
qed

lemma test_index_bounds:
  assumes n: "n < 2 ^ 53" and q: "0 \<le> q" "q \<le> 1"
  shows "\<exists>b. test_index_of n (Finite q) = Inr b \<and> 0 \<le> b \<and> b \<le> int n"
proof -
  have "\<exists>r1. round64 (1 - q) = Finite r1 \<and> 0 \<le> r1 \<and> r1 \<le> 1"
  proof (cases "q = 1")
    case True
    then show ?thesis by (simp add: round64_def)
  next
    case False
    with q have "0 < 1 - q" "1 - q \<le> of_int 1" by simp_all
    from round64_le_int [OF this] show ?thesis by simp
  qed
  then obtain r1 where r1: "round64 (1 - q) = Finite r1" "0 \<le> r1" "r1 \<le> 1" by blast
  have prod: "0 \<le> of_nat n * r1" "of_nat n * r1 \<le> of_int (int n)"
    using r1(2,3) by (simp_all add: mult_left_le)
  have "\<exists>r2. round64 (of_nat n * r1) = Finite r2 \<and> 0 \<le> r2 \<and> r2 \<le> of_int (int n)"
  proof (cases "of_nat n * r1 = 0")
    case True
    then show ?thesis by (simp add: round64_def)
  next
    case False
    with prod(1) have "0 < of_nat n * r1" by (simp only: less_le) simp
    moreover have "int n < 2 ^ 53" using n by (metis of_nat_less_iff of_nat_numeral of_nat_power)
    ultimately show ?thesis using prod(2) by (intro round64_le_int)
  qed
  then obtain r2 where r2: "round64 (of_nat n * r1) = Finite r2" "0 \<le> r2" "r2 \<le> of_int (int n)"
    by blast
  have "test_index_of n (Finite q) = Inr \<lfloor>r2\<rfloor>"
    using r2(2) by (simp add: test_index_of_def float_of_nat_exact [OF n] one_minus_def r1 r2 py_int_def)
  moreover have "0 \<le> \<lfloor>r2\<rfloor>" using r2(2) by simp
  moreover have "\<lfloor>r2\<rfloor> \<le> int n" using r2(3) by (simp add: floor_le_iff)
  ultimately show ?thesis by blast
qed

lemma test_index_nonpositive_size:
  assumes n: "n < 2 ^ 53" and q: "q \<le> 0" "\<bar>q\<bar> \<le> pow2 900"
  shows "\<exists>b. test_index_of n (Finite q) = Inr b \<and> int n \<le> b"
proof -
  have c1: "2 * (1 + pow2 900) + 1 < pow2 1024"
    and c2: "2 * (2 ^ 53 * (2 * (1 + pow2 900) + 1)) + 1 < pow2 1024"
    by (simp_all add: pow2_def)
  have a: "\<bar>1 - q\<bar> = 1 - q" "1 - q \<le> 1 + pow2 900" using q by linarith+
  have "2 * (1 - q) + 1 \<le> 2 * (1 + pow2 900) + 1" using a(2) by simp
  from this c1 have f1: "2 * (1 - q) + 1 < pow2 1024" by (rule le_less_trans)
  then have "2 * \<bar>1 - q\<bar> + 1 < pow2 1024" by (simp only: a(1))
  from round64_Finite [OF this] obtain r1 where r1: "round64 (1 - q) = Finite r1"
    and r1b: "\<bar>r1\<bar> \<le> 2 * \<bar>1 - q\<bar> + 1" by blast
  have "of_int 1 \<le> 1 - q" using q(1) by simp
  moreover note f1
  ultimately have "\<exists>r. round64 (1 - q) = Finite r \<and> of_int 1 \<le> r"
    by (intro round64_ge_int) simp_all
  with r1 have r1g: "1 \<le> r1" by simp
  have "r1 \<le> \<bar>r1\<bar>" by simp
  also have "\<dots> \<le> 2 * (1 - q) + 1" using r1b by (simp only: a(1))
  also note \<open>2 * (1 - q) + 1 \<le> 2 * (1 + pow2 900) + 1\<close>
  finally have r1c: "r1 \<le> 2 * (1 + pow2 900) + 1" .
  have nb: "(of_nat n :: rat) \<le> 2 ^ 53"
    using n by (metis less_imp_le of_nat_le_iff of_nat_numeral of_nat_power)
  have "of_nat n * r1 \<le> 2 ^ 53 * (2 * (1 + pow2 900) + 1)"
    using nb r1c r1g by (intro mult_mono) simp_all
  with c2 have fin: "2 * (of_nat n * r1) + 1 < pow2 1024" by linarith
  have ge: "(of_nat n :: rat) \<le> of_nat n * r1"
    using r1g by (simp add: mult_le_cancel_left1)
  have "\<exists>r2. round64 (of_nat n * r1) = Finite r2 \<and> of_int (int n) \<le> r2"
  proof (cases "n = 0")
    case True
    then show ?thesis by (simp add: round64_def)
  next
    case False
    then have "0 < int n" by simp
    moreover have "int n < 2 ^ 53" using n by (metis of_nat_less_iff of_nat_numeral of_nat_power)
    moreover have "of_int (int n) \<le> of_nat n * r1" using ge by simp
    ultimately show ?thesis using fin by (intro round64_ge_int)
  qed
  then obtain r2 where r2: "round64 (of_nat n * r1) = Finite r2" "of_int (int n) \<le> r2" by blast
  then have "0 \<le> r2" by (metis of_int_of_nat_eq of_nat_0_le_iff order_trans)
  then have "test_index_of n (Finite q) = Inr \<lfloor>r2\<rfloor>"
    by (simp add: test_index_of_def float_of_nat_exact [OF n] one_minus_def r1 r2 py_int_def)
  moreover have "int n \<le> \<lfloor>r2\<rfloor>" using r2(2) by (simp add: le_floor_iff)
  ultimately show ?thesis by blast
qed

lemma one_le_pow2_900: "1 \<le> pow2 900"
  by (simp add: pow2_def)

lemma upcast_small: "upcast 79 = 79" "upcast 78 = 78"
  using upcast_of_int [of 79] upcast_of_int [of 78] by simp_all

section \<open>Lemmas on frames\<close>

lemma update_append: "k \<notin> fst ` set al \<Longrightarrow> AList.update k v al = al @ [(k, v)]"
  by (induction al) auto

lemma length_assign: "length vs = length df \<Longrightarrow> length (assign c vs df) = length df"
  by (simp add: assign_def)

lemma nth_assign:
  "p < length df \<Longrightarrow> length vs = length df \<Longrightarrow>
   assign c vs df ! p = (fst (df ! p), AList.update c (vs ! p) (snd (df ! p)))"
  by (simp add: assign_def split_beta)

lemma assign_indexed:
  assumes "length vs = n" and "\<And>p. p < n \<Longrightarrow> c \<notin> fst ` set (C p)"
  shows "assign c vs (map (\<lambda>p. (T p, C p)) [0..<n]) = map (\<lambda>p. (T p, C p @ [(c, vs ! p)])) [0..<n]"
proof (rule nth_equalityI)
  show "length (assign c vs (map (\<lambda>p. (T p, C p)) [0..<n])) = length (map (\<lambda>p. (T p, C p @ [(c, vs ! p)])) [0..<n])"
    using assms(1) by (simp add: length_assign)
next
  fix p assume "p < length (assign c vs (map (\<lambda>p. (T p, C p)) [0..<n]))"
  then have p: "p < n" using assms(1) by (simp add: length_assign)
  then show "assign c vs (map (\<lambda>p. (T p, C p)) [0..<n]) ! p = map (\<lambda>p. (T p, C p @ [(c, vs ! p)])) [0..<n] ! p"
    using assms by (simp add: nth_assign update_append)
qed

lemma col_indexed:
  "col c (map (\<lambda>p. (T p, C p)) [0..<n]) = map (\<lambda>p. cell_of c (T p, C p)) [0..<n]"
  by (simp add: col_def comp_def)

lemma length_shift: "length (shift i ys) = length ys"
  by (simp add: shift_def)

lemma series_indexed: "map (\<lambda>(t, v). (t, [(Y, v)])) s = map (\<lambda>p. (fst (s ! p), base_cells s [] p)) [0..<length s]"
  by (rule nth_equalityI) (simp_all add: base_cells_def split_beta)

lemma cell_Y_base: "cell_of Y (t, base_cells s ks p @ cs) = snd (s ! p)"
  by (simp add: cell_of_def base_cells_def)

lemma col_Y_base: "map (\<lambda>p. cell_of Y (T p, base_cells s ks p)) [0..<length s] = map snd s"
  using cell_Y_base [where cs = "[]"] by (intro nth_equalityI) simp_all

lemma keys_base_cells: "fst ` set (base_cells s ks p) = insert Y (Lag ` set ks)"
  by (auto simp: base_cells_def image_iff)

lemma base_cells_snoc:
  "base_cells s (ks @ [k]) p = base_cells s ks p @ [(Lag k, shift k (map snd s) ! p)]"
  by (simp add: base_cells_def)

lemma foldl_add_lag_indexed:
  "distinct ks \<Longrightarrow>
   foldl add_lag (map (\<lambda>(t, v). (t, [(Y, v)])) s) ks
     = map (\<lambda>p. (fst (s ! p), base_cells s ks p)) [0..<length s]"
proof (induction ks rule: rev_induct)
  case Nil
  show ?case by (simp add: series_indexed)
next
  case (snoc k ks)
  then have IH: "foldl add_lag (map (\<lambda>(t, v). (t, [(Y, v)])) s) ks
     = map (\<lambda>p. (fst (s ! p), base_cells s ks p)) [0..<length s]" and k: "k \<notin> set ks"
    by simp_all
  have new: "Lag k \<notin> fst ` set (base_cells s ks p)" for p
    using k by (auto simp: keys_base_cells)
  have "foldl add_lag (map (\<lambda>(t, v). (t, [(Y, v)])) s) (ks @ [k])
          = add_lag (map (\<lambda>p. (fst (s ! p), base_cells s ks p)) [0..<length s]) k"
    by (simp add: IH)
  also have "\<dots> = map (\<lambda>p. (fst (s ! p), base_cells s (ks @ [k]) p)) [0..<length s]"
    using new by (simp add: add_lag_def col_indexed col_Y_base assign_indexed length_shift base_cells_snoc)
  finally show ?case .
qed

lemma with_lags_indexed:
  "with_lags s ls le = map (\<lambda>p. (fst (s ! p), base_cells s [ls..le - 1] p)) [0..<length s]"
  by (simp add: with_lags_def foldl_add_lag_indexed)

lemma with_datetime_indexed:
  assumes "\<And>p. p < n \<Longrightarrow> fst ` set (C p) \<inter> {Hour, Weekday, Is_weekend} = {}"
  shows "with_datetime (map (\<lambda>p. (T p, C p)) [0..<n])
         = map (\<lambda>p. (T p, C p @ datetime_cells (T p))) [0..<n]"
proof -
  let ?d1 = "map (\<lambda>p. (T p, C p @ [(Hour, Some (of_int (hour_of (T p))))])) [0..<n]"
  let ?d2 = "map (\<lambda>p. (T p, (C p @ [(Hour, Some (of_int (hour_of (T p))))]) @ [(Weekday, Some (of_int (weekday_of (T p))))])) [0..<n]"
  have 1: "assign Hour (map (\<lambda>r. Some (of_int (hour_of (fst r)))) (map (\<lambda>p. (T p, C p)) [0..<n])) (map (\<lambda>p. (T p, C p)) [0..<n]) = ?d1"
    using assms by (subst assign_indexed) (auto simp: comp_def)
  have 2: "assign Weekday (map (\<lambda>r. Some (of_int (weekday_of (fst r)))) ?d1) ?d1 = ?d2"
    using assms by (subst assign_indexed) (auto simp: comp_def)
  have 3: "col Weekday ?d2 = map (\<lambda>p. Some (of_int (weekday_of (T p)))) [0..<n]"
    using assms by (auto simp: col_indexed cell_of_def map_of_eq_None_iff[THEN iffD2] split: option.splits)
  have 4: "assign Is_weekend (map (\<lambda>w. if w = Some 5 \<or> w = Some 6 then Some 1 else Some 0) (col Weekday ?d2)) ?d2
     = map (\<lambda>p. (T p, C p @ datetime_cells (T p))) [0..<n]"
    unfolding 3 using assms
    by (subst assign_indexed) (auto simp: comp_def datetime_cells_def weekend_cell_def)
  show ?thesis
    unfolding with_datetime_def Let_def 1 2 4 ..
qed

lemma map_of_base_cells_other: "c \<noteq> Y \<Longrightarrow> c \<notin> range Lag \<Longrightarrow> map_of (base_cells s ks p) c = None"
  by (auto simp: base_cells_def map_of_eq_None_iff image_iff)

lemma map_of_lag_cells:
  "map_of (map (\<lambda>k. (Lag k, g k)) ks) (Lag k) = (if k \<in> set ks then Some (g k) else None)"
  by (induction ks) auto

lemma map_of_base_cells_Lag:
  "map_of (base_cells s ks p) (Lag k) = (if k \<in> set ks then Some (shift k (map snd s) ! p) else None)"
  by (simp add: base_cells_def map_of_lag_cells)

lemma features0_indexed:
  "with_datetime (with_lags s ls le) = closed_frame s [ls..le - 1] datetime_cells"
  unfolding with_lags_indexed closed_frame_def
  by (rule with_datetime_indexed) (auto simp: keys_base_cells)

lemma slice_to_map: "slice_to i (map f xs) = map f (slice_to i xs)"
  by (simp add: slice_to_def take_map)

lemma slice_to_nth: "slice_to i xs = map (\<lambda>p. xs ! p) (slice_to i [0..<length xs])"
  using slice_to_map [of i "\<lambda>p. xs ! p" "[0..<length xs]"] by (simp add: map_nth)

lemma group_values_eq:
  "group_values F c v k
     = List.map_filter snd (filter (\<lambda>x. fst x = Some k) (map (\<lambda>r. (cell_of c r, cell_of v r)) F))"
  by (induction F) (auto simp: group_values_def List.map_filter_simps split: option.splits)

lemma series_group_values_eq:
  "series_group_values f train w
     = List.map_filter snd (filter (\<lambda>x. fst x = Some (of_int w))
          (map (\<lambda>(t, v). (Some (of_int (f t) :: rat), v)) train))"
  by (induction train) (auto simp: series_group_values_def List.map_filter_simps split: option.splits)

lemma group_values_series:
  assumes "\<And>p. p < length s \<Longrightarrow> cell_of c (R p) = Some (of_int (f (fst (s ! p))))"
    and "\<And>p. p < length s \<Longrightarrow> cell_of Y (R p) = snd (s ! p)"
  shows "group_values (slice_to i (map R [0..<length s])) c Y (of_int w)
         = series_group_values f (slice_to i s) w"
proof -
  have sub: "set (slice_to i [0..<length s]) \<subseteq> {0..<length s}"
    by (auto simp: slice_to_def dest: in_set_takeD)
  have "map (\<lambda>r. (cell_of c r, cell_of Y r)) (slice_to i (map R [0..<length s]))
        = map (\<lambda>p. (cell_of c (R p), cell_of Y (R p))) (slice_to i [0..<length s])"
    by (simp add: slice_to_map comp_def)
  also have "\<dots> = map (\<lambda>p. (Some (of_int (f (fst (s ! p)))), snd (s ! p))) (slice_to i [0..<length s])"
    using sub assms by (intro map_cong refl) auto
  also have "\<dots> = map (\<lambda>(t, v). (Some (of_int (f t)), v)) (slice_to i s)"
    by (subst (2) slice_to_nth) (simp add: comp_def split_beta)
  finally show ?thesis
    by (simp add: group_values_eq series_group_values_eq)
qed

lemma cell_of_datetime_row:
  "cell_of Hour (t, base_cells s ks p @ datetime_cells t' @ cs) = Some (of_int (hour_of t'))"
  "cell_of Weekday (t, base_cells s ks p @ datetime_cells t' @ cs) = Some (of_int (weekday_of t'))"
proof -
  have "map_of (base_cells s ks p) Hour = None" "map_of (base_cells s ks p) Weekday = None"
    by (rule map_of_base_cells_other; auto)+
  then show
    "cell_of Hour (t, base_cells s ks p @ datetime_cells t' @ cs) = Some (of_int (hour_of t'))"
    "cell_of Weekday (t, base_cells s ks p @ datetime_cells t' @ cs) = Some (of_int (weekday_of t'))"
    by (simp_all add: cell_of_def map_add_def datetime_cells_def)
qed

lemma drop_columns_indexed:
  "drop_columns ds (map (\<lambda>p. (T p, C p)) xs)
     = map (\<lambda>p. (T p, filter (\<lambda>(c, v). c \<notin> set ds) (C p))) xs"
  by (simp add: drop_columns_def comp_def)

lemma filter_base_cells:
  "P Y \<Longrightarrow> (\<And>k. P (Lag k)) \<Longrightarrow>
   filter (\<lambda>(c, v). P c) (base_cells s ks p) = base_cells s ks p"
  by (auto simp: base_cells_def filter_id_conv)

lemma encode_indexed:
  fixes s :: series
  defines "R \<equiv> \<lambda>ks p. (fst (s ! p), base_cells s ks p @ datetime_cells (fst (s ! p)))"
  assumes data: "data = map (R ks) [0..<length s]"
  shows "encode data ti
         = map (\<lambda>p. (fst (s ! p), base_cells s ks p @ encoded_cells (slice_to ti s) (fst (s ! p))))
             [0..<length s]"
proof -
  define wa where "wa = (\<lambda>p. mean (series_group_values weekday_of (slice_to ti s) (weekday_of (fst (s ! p)))))"
  define ha where "ha = (\<lambda>p. mean (series_group_values hour_of (slice_to ti s) (hour_of (fst (s ! p)))))"
  define R1 where "R1 = (\<lambda>p. (fst (s ! p), (base_cells s ks p @ datetime_cells (fst (s ! p))) @ [(Weekday_average, wa p)]))"
  define R2 where "R2 = (\<lambda>p. (fst (s ! p), ((base_cells s ks p @ datetime_cells (fst (s ! p))) @ [(Weekday_average, wa p)]) @ [(Hour_average, ha p)]))"
  have colW: "col Weekday data = map (\<lambda>p. Some (of_int (weekday_of (fst (s ! p))))) [0..<length s]"
    using cell_of_datetime_row(2) [where cs = "[]"] by (simp add: data R_def col_def comp_def)
  have gW: "code_mean (slice_to ti data) Weekday Y (of_int w)
            = mean (series_group_values weekday_of (slice_to ti s) w)" for w
    unfolding code_mean_def data
    using cell_of_datetime_row(2) [where cs = "[]"]
    by (subst group_values_series [where f = weekday_of]) (simp_all add: R_def cell_Y_base)
  have mW: "map_get (code_mean (slice_to ti data) Weekday Y) (col Weekday data) = map wa [0..<length s]"
    by (simp add: colW map_get_def gW wa_def comp_def)
  have d1: "assign Weekday_average (map wa [0..<length s]) data = map R1 [0..<length s]"
    unfolding data R_def R1_def
    by (subst assign_indexed) (auto simp: keys_base_cells datetime_cells_def)
  have colH: "col Hour (map R1 [0..<length s]) = map (\<lambda>p. Some (of_int (hour_of (fst (s ! p))))) [0..<length s]"
    using cell_of_datetime_row(1) by (simp add: R1_def col_def comp_def)
  have gH: "code_mean (slice_to ti (map R1 [0..<length s])) Hour Y (of_int w)
            = mean (series_group_values hour_of (slice_to ti s) w)" for w
    unfolding code_mean_def
    by (subst group_values_series [where f = hour_of]) (simp_all add: R1_def cell_of_datetime_row cell_Y_base)
  have mH: "map_get (code_mean (slice_to ti (map R1 [0..<length s])) Hour Y) (col Hour (map R1 [0..<length s]))
            = map ha [0..<length s]"
    by (simp add: colH map_get_def gH ha_def comp_def)
  have d2: "assign Hour_average (map ha [0..<length s]) (map R1 [0..<length s]) = map R2 [0..<length s]"
    unfolding R1_def R2_def
    by (subst assign_indexed) (auto simp: keys_base_cells datetime_cells_def)
  have d3: "drop_columns [Hour, Weekday] (map R2 [0..<length s])
            = map (\<lambda>p. (fst (s ! p), base_cells s ks p @ encoded_cells (slice_to ti s) (fst (s ! p)))) [0..<length s]"
    unfolding R2_def drop_columns_indexed
    by (simp add: filter_base_cells [where P = "\<lambda>c. c \<noteq> Hour \<and> c \<noteq> Weekday"]
        datetime_cells_def encoded_cells_def wa_def ha_def)
  show ?thesis
    unfolding encode_def Let_def mW d1 mH d2 d3 ..
qed

lemma encode_closed_frame:
  "encode (closed_frame s ks datetime_cells) ti = closed_frame s ks (encoded_cells (slice_to ti s))"
  unfolding closed_frame_def by (rule encode_indexed) (rule refl)

lemma features_plain: "features s ls le ts False = Inr (closed_frame s [ls..le - 1] datetime_cells)"
  by (simp add: features_def features0_indexed)

lemma features_encoded:
  "features s ls le ts True =
     (case encoding_index s ls le ts of
        Inl e \<Rightarrow> Inl e
      | Inr ti \<Rightarrow> Inr (closed_frame s [ls..le - 1] (encoded_cells (slice_to ti s))))"
  by (simp add: features_def with_target_encoding_def encoding_index_def Let_def
      features0_indexed [symmetric] encode_closed_frame [of s "[ls..le - 1]", unfolded features0_indexed [symmetric]]
      split: sum.splits)

lemma features_Inr:
  assumes "features s ls le ts te = Inr F"
  shows "\<exists>extra. F = closed_frame s [ls..le - 1] extra
           \<and> (if te then \<exists>ti. encoding_index s ls le ts = Inr ti \<and> extra = encoded_cells (slice_to ti s)
               else extra = datetime_cells)"
proof (cases te)
  case True
  with assms show ?thesis
    by (auto simp: features_encoded split: sum.splits)
next
  case False
  with assms show ?thesis
    by (auto simp: features_plain)
qed

lemma length_closed_frame: "length (closed_frame s ks extra) = length s"
  by (simp add: closed_frame_def)

lemma map_fst_closed_frame: "map fst (closed_frame s ks extra) = map fst s"
  by (rule nth_equalityI) (simp_all add: closed_frame_def)

lemma nth_closed_frame:
  "p < length s \<Longrightarrow>
   closed_frame s ks extra ! p = (fst (s ! p), base_cells s ks p @ extra (fst (s ! p)))"
  by (simp add: closed_frame_def)

lemma length_features: "features s ls le ts te = Inr F \<Longrightarrow> length F = length s"
  by (auto dest!: features_Inr simp: length_closed_frame)

lemma map_fst_features: "features s ls le ts te = Inr F \<Longrightarrow> map fst F = map fst s"
  by (auto dest!: features_Inr simp: map_fst_closed_frame)

subsection \<open>Rows of the cleaned frame and the split\<close>

lemma map_of_filter_key:
  "map_of (filter (\<lambda>(c, v). P c) cs) k = (if P k then map_of cs k else None)"
  by (induction cs) auto

lemma nth_shift:
  "p < length ys \<Longrightarrow>
   shift k ys ! p =
     (if k = 0 then ys ! p
      else if 0 \<le> int p - k \<and> int p - k < int (length ys)
           then map_option upcast (ys ! nat (int p - k)) else None)"
  by (simp add: shift_def Let_def)


lemma map_fst_drop_columns: "map fst (drop_columns ds F) = map fst F"
  by (simp add: drop_columns_def comp_def split_beta)

lemma length_drop_columns: "length (drop_columns ds F) = length F"
  by (simp add: drop_columns_def)

lemma map_fst_y_of: "map fst (y_of F) = map fst F"
  by (simp add: y_of_def comp_def)

lemma in_cleaned:
  assumes "r \<in> set (drop_columns ds (dropna F))"
  shows "\<exists>p<length F. complete (F ! p) \<and> fst r = fst (F ! p)
           \<and> snd r = filter (\<lambda>(c, v). c \<notin> set ds) (snd (F ! p))"
proof -
  from assms obtain r0 where r0: "r0 \<in> set F" "complete r0"
      and r: "r = (fst r0, filter (\<lambda>(c, v). c \<notin> set ds) (snd r0))"
    by (auto simp: drop_columns_def dropna_def split_beta)
  from r0(1) obtain p where "p < length F" "F ! p = r0"
    by (auto simp: in_set_conv_nth)
  with r0(2) r show ?thesis by auto
qed

lemma in_y_of_cleaned:
  assumes "r \<in> set (y_of (dropna F))"
  shows "\<exists>p<length F. complete (F ! p) \<and> fst r = fst (F ! p)"
proof -
  from assms obtain r0 where r0: "r0 \<in> set F" "complete r0" and r: "fst r = fst r0"
    by (auto simp: y_of_def dropna_def)
  from r0(1) obtain p where "p < length F" "F ! p = r0"
    by (auto simp: in_set_conv_nth)
  with r0(2) r show ?thesis by auto
qed

lemma length_y_of: "length (y_of F) = length F"
  by (simp add: y_of_def)

lemma length_dropna_le: "length (dropna F) \<le> length F"
  by (simp add: dropna_def)

lemma slice_append: "slice_to b xs @ slice_from b xs = xs"
  by (simp add: slice_to_def slice_from_def)

lemma split_Inr:
  assumes "timeseries_train_test_split X y ts = Inr (Xtr, Xte, ytr, yte)"
  shows "\<exists>b. test_index_of (length X) ts = Inr b \<and> Xtr = slice_to b X \<and> Xte = slice_from b X
             \<and> ytr = slice_to b y \<and> yte = slice_from b y"
  using assms by (auto simp: timeseries_train_test_split_def split: sum.splits)

lemma split_subset:
  assumes "timeseries_train_test_split X y ts = Inr (Xtr, Xte, ytr, yte)"
  shows "set Xtr \<subseteq> set X" "set Xte \<subseteq> set X" "Xtr @ Xte = X" "ytr @ yte = y"
proof -
  from split_Inr [OF assms] obtain b where b: "Xtr = slice_to b X" "Xte = slice_from b X"
    "ytr = slice_to b y" "yte = slice_from b y" by blast
  show "Xtr @ Xte = X" "ytr @ yte = y" by (simp_all add: b slice_append)
  then show "set Xtr \<subseteq> set X" "set Xte \<subseteq> set X" by (metis set_append Un_upper1 Un_upper2)+
qed

lemma prepareData_Inr:
  assumes "prepareData s ls le ts te = Inr out"
  shows "\<exists>F. features s ls le ts te = Inr F
           \<and> timeseries_train_test_split (drop_columns [Y] (dropna F)) (y_of (dropna F)) ts = Inr out"
  using assms by (auto simp: prepareData_def split: sum.splits)

lemma split_error:
  "timeseries_train_test_split X y ts = Inl e \<Longrightarrow> e = OverflowError \<or> e = ValueError"
  by (auto simp: timeseries_train_test_split_def split: sum.splits dest: test_index_error)

lemma features_error: "features s ls le ts te = Inl e \<Longrightarrow> e = OverflowError \<or> e = ValueError"
  by (auto simp: features_def with_target_encoding_def Let_def split: sum.splits if_splits
      dest: test_index_error)

lemma prepareData_error: "prepareData s ls le ts te = Inl e \<Longrightarrow> e = OverflowError \<or> e = ValueError"
  by (auto simp: prepareData_def split: sum.splits dest: split_error features_error)

lemma features_returns:
  assumes len: "length s < 2 ^ 53" and q: "\<bar>q\<bar> \<le> pow2 900"
  shows "\<exists>F. features s ls le (Finite q) te = Inr F"
proof (cases te)
  case False
  then show ?thesis by (simp add: features_plain)
next
  case True
  have "length (dropna (with_datetime (with_lags s ls le))) \<le> length s"
    using length_dropna_le [of "with_datetime (with_lags s ls le)"]
    by (simp add: features0_indexed length_closed_frame)
  with len have "length (dropna (with_datetime (with_lags s ls le))) < 2 ^ 53" by simp
  from test_index_returns [OF this q] obtain ti where "encoding_index s ls le (Finite q) = Inr ti"
    by (auto simp: encoding_index_def)
  with True show ?thesis by (simp add: features_encoded)
qed

lemma prepareData_returns:
  assumes len: "length s < 2 ^ 53" and q: "\<bar>q\<bar> \<le> pow2 900"
  shows "\<exists>F b. features s ls le (Finite q) te = Inr F
           \<and> test_index_of (length (dropna F)) (Finite q) = Inr b \<and> (q \<le> 1 \<longrightarrow> 0 \<le> b)
           \<and> prepareData s ls le (Finite q) te
               = Inr (slice_to b (drop_columns [Y] (dropna F)), slice_from b (drop_columns [Y] (dropna F)),
                      slice_to b (y_of (dropna F)), slice_from b (y_of (dropna F)))"
proof -
  from features_returns [OF len q] obtain F where F: "features s ls le (Finite q) te = Inr F"
    by blast
  have "length (dropna F) \<le> length s"
    using length_dropna_le [of F] length_features [OF F] by simp
  with len have "length (dropna F) < 2 ^ 53" by simp
  from test_index_returns [OF this q] obtain b
    where b: "test_index_of (length (dropna F)) (Finite q) = Inr b" "q \<le> 1 \<longrightarrow> 0 \<le> b"
    by blast
  then show ?thesis
    using F by (auto simp: prepareData_def timeseries_train_test_split_def length_drop_columns)
qed

lemma features_row:
  assumes F: "features s ls le ts te = Inr F" and p: "p < length s"
  shows "\<exists>extra. F ! p = (fst (s ! p), base_cells s [ls..le - 1] p @ extra)
           \<and> (\<forall>k. map_of extra (Lag k) = None)
           \<and> (if te then \<exists>ti. encoding_index s ls le ts = Inr ti
                          \<and> extra = encoded_cells (slice_to ti s) (fst (s ! p))
               else extra = datetime_cells (fst (s ! p)))"
proof -
  from features_Inr [OF F] obtain extra where ex: "F = closed_frame s [ls..le - 1] extra"
    and kind: "if te then \<exists>ti. encoding_index s ls le ts = Inr ti \<and> extra = encoded_cells (slice_to ti s)
               else extra = datetime_cells"
    by blast
  have "\<forall>k. map_of (extra (fst (s ! p))) (Lag k) = None"
    using kind by (auto simp: encoded_cells_def datetime_cells_def split: if_splits)
  then show ?thesis
    using ex kind p by (auto simp: nth_closed_frame split: if_splits)
qed

lemma features_row_fst:
  "features s ls le ts te = Inr F \<Longrightarrow> p < length s \<Longrightarrow> fst (F ! p) = fst (s ! p)"
  by (auto dest!: features_row [where p = p])

lemma features_row_Lag:
  assumes "features s ls le ts te = Inr F" and "p < length s"
  shows "map_of (snd (F ! p)) (Lag k)
         = (if ls \<le> k \<and> k < le then Some (shift k (map snd s) ! p) else None)"
proof -
  from features_row [OF assms] obtain extra
    where "F ! p = (fst (s ! p), base_cells s [ls..le - 1] p @ extra)"
      and "\<forall>k. map_of extra (Lag k) = None"
    by blast
  then show ?thesis
    by (auto simp: map_add_def map_of_base_cells_Lag)
qed

lemma build_Inr:
  assumes "build s ls le ts te = Inr out"
  shows "\<exists>F. features s ls le ts te = Inr F
           \<and> timeseries_train_test_split (drop_columns [Y] (dropna F)) (y_of (dropna F)) ts = Inr out"
  using assms unfolding build_def by (rule prepareData_Inr)

lemma build_error: "build s ls le ts te = Inl e \<Longrightarrow> e = OverflowError \<or> e = ValueError"
  unfolding build_def by (rule prepareData_error)

lemma cleaned_length:
  "length (dropna (with_datetime (with_lags s ls le))) \<le> length s"
  using length_dropna_le [of "with_datetime (with_lags s ls le)"]
  by (simp add: features0_indexed length_closed_frame)

lemma sorted_wrt_map_fst_filter:
  "sorted_wrt (<) (map fst xs) \<Longrightarrow> sorted_wrt (\<lambda>a b. fst a < fst b) (filter P xs)"
  by (simp add: sorted_wrt_map sorted_wrt_filter)

lemma sorted_wrt_fst_cong:
  "map fst xs = map fst ys \<Longrightarrow> sorted_wrt (\<lambda>a b. fst a < fst b) xs = sorted_wrt (\<lambda>a b. fst a < fst b) ys"
  by (metis sorted_wrt_map)

lemma series_group_values_unseen:
  "w \<notin> f ` fst ` set train \<Longrightarrow> series_group_values f train w = []"
  by (auto simp: series_group_values_def List.map_filter_def filter_empty_conv image_iff)

lemma incomplete_row:
  assumes "(c, None) \<in> set (snd r)"
  shows "\<not> complete r"
  using assms by (auto simp: complete_def list_all_iff)

lemma complete_position_unique:
  assumes F: "features s ls le ts te = Inr F"
    and distinct: "distinct (map fst s)" and p: "p < length s"
    and r: "fst (s ! p) \<in> fst ` set (drop_columns [Y] (dropna F))
            \<or> fst (s ! p) \<in> fst ` set (y_of (dropna F))"
  shows "complete (F ! p)"
proof -
  have "\<exists>q<length F. complete (F ! q) \<and> fst (s ! p) = fst (F ! q)"
    using r
  proof
    assume "fst (s ! p) \<in> fst ` set (drop_columns [Y] (dropna F))"
    then obtain r where "r \<in> set (drop_columns [Y] (dropna F))" "fst (s ! p) = fst r"
      by (auto simp: image_iff)
    with in_cleaned [OF this(1)] show ?thesis by auto
  next
    assume "fst (s ! p) \<in> fst ` set (y_of (dropna F))"
    then obtain r where "r \<in> set (y_of (dropna F))" "fst (s ! p) = fst r"
      by (auto simp: image_iff)
    with in_y_of_cleaned [OF this(1)] show ?thesis by auto
  qed
  then obtain q where q: "q < length s" "complete (F ! q)" "fst (s ! p) = fst (F ! q)"
    by (auto simp: length_features [OF F])
  then have "fst (s ! q) = fst (s ! p)"
    by (simp add: features_row_fst [OF F])
  then have "map fst s ! q = map fst s ! p"
    using p q(1) by simp
  with distinct have "q = p"
    using p q(1) nth_eq_iff_index_eq [of "map fst s" q p] by (simp del: nth_map)
  with q(2) show ?thesis by simp
qed

lemma encoded_cell_values:
  assumes F: "features s ls le ts True = Inr F" and ti: "encoding_index s ls le ts = Inr ti"
    and p: "p < length s" and train: "train = slice_to ti s"
  shows "cell_of Weekday_average (F ! p)
           = mean (series_group_values weekday_of train (weekday_of (fst (s ! p))))"
    and "cell_of Hour_average (F ! p)
           = mean (series_group_values hour_of train (hour_of (fst (s ! p))))"
    and "(Weekday_average, mean (series_group_values weekday_of train (weekday_of (fst (s ! p)))))
           \<in> set (snd (F ! p))"
    and "(Hour_average, mean (series_group_values hour_of train (hour_of (fst (s ! p)))))
           \<in> set (snd (F ! p))"
proof -
  from F ti have "F = closed_frame s [ls..le - 1] (encoded_cells (slice_to ti s))"
    by (simp add: features_encoded)
  then have row: "F ! p = (fst (s ! p), base_cells s [ls..le - 1] p @ encoded_cells train (fst (s ! p)))"
    using p train by (simp add: nth_closed_frame)
  have "map_of (base_cells s [ls..le - 1] p) Weekday_average = None"
       "map_of (base_cells s [ls..le - 1] p) Hour_average = None"
    by (rule map_of_base_cells_other; auto)+
  then show "cell_of Weekday_average (F ! p)
           = mean (series_group_values weekday_of train (weekday_of (fst (s ! p))))"
    and "cell_of Hour_average (F ! p)
           = mean (series_group_values hour_of train (hour_of (fst (s ! p))))"
    by (simp_all add: row cell_of_def map_add_def encoded_cells_def)
  show "(Weekday_average, mean (series_group_values weekday_of train (weekday_of (fst (s ! p)))))
           \<in> set (snd (F ! p))"
    and "(Hour_average, mean (series_group_values hour_of train (hour_of (fst (s ! p)))))
           \<in> set (snd (F ! p))"
    by (simp_all add: row encoded_cells_def)
qed

lemma lag_columns_of_row:
  assumes "features s ls le ts te = Inr F" and "p < length s"
  shows "(map_of (filter (\<lambda>(c, v). c \<notin> set [Y]) (snd (F ! p))) (Lag k) \<noteq> None)
         = (ls \<le> k \<and> k < le)"
  using features_row_Lag [OF assms, of k]
  by (auto simp: map_of_filter_key [where P = "\<lambda>c. c \<noteq> Y"])

lemma filter_ge_upt: "filter (\<lambda>p. m \<le> p) [0..<n] = [m..<n]"
  by (induction n) auto

lemma list_all_datetime_cells: "list_all (\<lambda>(c, v). v \<noteq> None) (datetime_cells t)"
  by (simp add: datetime_cells_def weekend_cell_def)

lemma list_all_base_cells:
  "list_all (\<lambda>(c, v). v \<noteq> None) (base_cells s ks p)
     = (snd (s ! p) \<noteq> None \<and> (\<forall>k\<in>set ks. shift k (map snd s) ! p \<noteq> None))"
  by (induction ks) (auto simp: base_cells_def)

lemma complete_plain_row:
  assumes p: "p < length s" and defined: "None \<notin> snd ` set s" and w: "1 \<le> ls" "ls < le"
  shows "complete (closed_frame s [ls..le - 1] datetime_cells ! p) = (nat (le - 1) \<le> p)"
proof -
  have y: "snd (s ! q) \<noteq> None" if "q < length s" for q
    using defined that by (metis image_eqI nth_mem)
  have lag: "(shift k (map snd s) ! p \<noteq> None) = (k \<le> int p)" if "1 \<le> k" for k
  proof (cases "k \<le> int p")
    case True
    then have "nat (int p - k) < length s" using p that by linarith
    with True p that show ?thesis by (simp add: nth_shift y)
  next
    case False
    with p that show ?thesis by (simp add: nth_shift)
  qed
  have "complete (closed_frame s [ls..le - 1] datetime_cells ! p)
        = (\<forall>k\<in>set [ls..le - 1]. shift k (map snd s) ! p \<noteq> None)"
    using y [OF p]
    by (simp only: nth_closed_frame [OF p] complete_def snd_conv list_all_append
        list_all_base_cells list_all_datetime_cells simp_thms)
  also have "\<dots> = (\<forall>k\<in>{ls..le - 1}. k \<le> int p)"
    using w lag by auto
  also have "\<dots> = (le - 1 \<le> int p)"
    using w by auto
  finally show ?thesis by linarith
qed

lemma dropna_plain:
  assumes "None \<notin> snd ` set s" and "1 \<le> ls" "ls < le"
  shows "dropna (closed_frame s [ls..le - 1] datetime_cells)
         = drop (nat (le - 1)) (closed_frame s [ls..le - 1] datetime_cells)"
proof -
  let ?F = "closed_frame s [ls..le - 1] datetime_cells"
  have F: "?F = map (\<lambda>p. ?F ! p) [0..<length s]"
    by (metis length_closed_frame map_nth)
  have "dropna ?F = map (\<lambda>p. ?F ! p) (filter (\<lambda>p. complete (?F ! p)) [0..<length s])"
    by (subst F) (simp add: dropna_def filter_map comp_def)
  also have "filter (\<lambda>p. complete (?F ! p)) [0..<length s] = filter (\<lambda>p. nat (le - 1) \<le> p) [0..<length s]"
    using assms by (intro filter_cong refl) (simp add: complete_plain_row)
  also have "map (\<lambda>p. ?F ! p) (filter (\<lambda>p. nat (le - 1) \<le> p) [0..<length s]) = drop (nat (le - 1)) ?F"
    by (subst (2) F) (simp add: filter_ge_upt drop_map)
  finally show ?thesis .
qed

lemma cell_of_Lag_closed_frame:
  "p < length s \<Longrightarrow> ls \<le> k \<Longrightarrow> k < le \<Longrightarrow>
   cell_of (Lag k) (closed_frame s [ls..le - 1] datetime_cells ! p) = shift k (map snd s) ! p"
  by (simp add: nth_closed_frame cell_of_def map_add_def map_of_base_cells_Lag)

lemma cell_of_drop_columns:
  "q < length F \<Longrightarrow> c \<notin> set ds \<Longrightarrow> cell_of c (drop_columns ds F ! q) = cell_of c (F ! q)"
  by (simp add: drop_columns_def cell_of_def split_beta map_of_filter_key [where P = "\<lambda>c. c \<notin> set ds"])

lemma mutate_frame:
  "a < length \<sigma> \<Longrightarrow> \<sigma> ! a = Frame_obj d \<Longrightarrow> mutate a f \<sigma> = \<sigma>[a := Frame_obj (f d)]"
  by (simp add: mutate_def frame_at_def)

lemma foldl_mutate:
  "a < length \<sigma> \<Longrightarrow> \<sigma> ! a = Frame_obj d \<Longrightarrow>
   foldl (\<lambda>s i. mutate a (\<lambda>d. g d i) s) \<sigma> ks = \<sigma>[a := Frame_obj (foldl g d ks)]"
proof (induction ks arbitrary: \<sigma> d)
  case Nil
  then have "\<sigma>[a := Frame_obj d] = \<sigma>" by (metis list_update_id)
  then show ?case by simp
next
  case (Cons k ks)
  have "foldl (\<lambda>s i. mutate a (\<lambda>d. g d i) s) \<sigma> (k # ks)
        = foldl (\<lambda>s i. mutate a (\<lambda>d. g d i) s) (\<sigma>[a := Frame_obj (g d k)]) ks"
    using Cons.prems by (simp add: mutate_frame)
  also have "\<dots> = (\<sigma>[a := Frame_obj (g d k)])[a := Frame_obj (foldl g (g d k) ks)]"
    using Cons.prems by (intro Cons.IH) simp_all
  finally show ?case by simp
qed

lemma prepareData_st_eq:
  assumes "series_ref < length \<sigma>" and "\<sigma> ! series_ref = Series_obj s"
  shows "\<exists>G. prepareData_st series_ref ls le ts te \<sigma>
              = (prepareData s ls le ts te, \<sigma> @ [Frame_obj G])"
proof -
  let ?a = "length \<sigma>"
  let ?d0 = "map (\<lambda>(t, v). (t, [(Y, v)])) s"
  let ?D = "with_datetime (with_lags s ls le)"
  have s1: "alloc (\<sigma> ! series_ref) \<sigma> = (?a, \<sigma> @ [Series_obj s])"
    using assms by (simp add: alloc_def)
  have s2: "mutate ?a (\<lambda>d. d) (\<sigma> @ [Series_obj s]) = \<sigma> @ [Frame_obj ?d0]"
    by (simp add: mutate_def frame_at_def)
  have s3: "foldl (\<lambda>s i. mutate ?a (\<lambda>d. add_lag d i) s) (\<sigma> @ [Frame_obj ?d0]) [ls..le - 1]
            = \<sigma> @ [Frame_obj (with_lags s ls le)]"
    by (subst foldl_mutate [where d = ?d0]) (simp_all add: with_lags_def)
  have s4: "mutate ?a with_datetime (\<sigma> @ [Frame_obj (with_lags s ls le)]) = \<sigma> @ [Frame_obj ?D]"
    by (subst mutate_frame [where d = "with_lags s ls le"]) simp_all
  have s5: "frame_at (\<sigma> @ [Frame_obj G]) ?a = G" for G
    by (simp add: frame_at_def)
  have s6: "mutate ?a f (\<sigma> @ [Frame_obj G]) = \<sigma> @ [Frame_obj (f G)]" for f G
    by (simp add: mutate_def frame_at_def)
  have s7: "split_st ?a ts (\<sigma> @ [Frame_obj G])
            = (timeseries_train_test_split (drop_columns [Y] (dropna G)) (y_of (dropna G)) ts,
               \<sigma> @ [Frame_obj G])" for G
    by (simp add: split_st_def s5)
  show ?thesis
    unfolding prepareData_st_def s1 Let_def prod.case s2 s3 s4 s5 s6 s7
    by (auto simp: prepareData_def features_def with_target_encoding_def Let_def split: sum.splits)
qed

lemma hourly_series_facts:
  "length (hourly_series t0 n) = n"
  "map fst (hourly_series t0 n) = map (\<lambda>i. t0 + int i * 3600000000000) [0..<n]"
  "map snd (hourly_series t0 n) = map (\<lambda>i. Some (of_nat i)) [0..<n]"
  "None \<notin> snd ` set (hourly_series t0 n)"
  by (auto simp: hourly_series_def comp_def)

lemma prepareData_plain:
  assumes defined: "None \<notin> snd ` set s" and w: "1 \<le> ls" "ls < le"
    and b: "test_index_of (length s - nat (le - 1)) ts = Inr (int b)"
    and X: "X = drop_columns [Y] (drop (nat (le - 1)) (closed_frame s [ls..le - 1] datetime_cells))"
    and y: "y = y_of (drop (nat (le - 1)) (closed_frame s [ls..le - 1] datetime_cells))"
  shows "prepareData s ls le ts False = Inr (take b X, drop b X, take b y, drop b y)"
  using b
  by (simp add: prepareData_def features_plain dropna_plain [OF defined w] X y
      timeseries_train_test_split_def length_drop_columns length_closed_frame
      slice_to_def slice_from_def)

subsection \<open>Fractions that are not numbers, or not finite\<close>

lemma build_not_a_number:
  assumes len: "length s < 2 ^ 53"
  shows "build s ls le NaN te = Inl ValueError"
proof -
  let ?D = "with_datetime (with_lags s ls le)"
  have n: "length (dropna ?D) < 2 ^ 53"
    using cleaned_length [of s ls le] len by simp
  show ?thesis
  proof (cases te)
    case True
    then show ?thesis
      by (simp add: build_def prepareData_def features_def Let_def with_target_encoding_def
          test_index_nan [OF n])
  next
    case False
    then show ?thesis
      by (simp add: build_def prepareData_def features_def Let_def
          timeseries_train_test_split_def length_drop_columns test_index_nan [OF n])
  qed
qed

lemma build_infinite:
  assumes len: "length s < 2 ^ 53" and ts: "ts = PInf \<or> ts = NInf"
  shows "build s ls le ts te
         = Inl (if dropna (with_datetime (with_lags s ls le)) = [] then ValueError else OverflowError)"
proof -
  let ?D = "with_datetime (with_lags s ls le)"
  have n: "length (dropna ?D) < 2 ^ 53"
    using cleaned_length [of s ls le] len by simp
  note idx = test_index_infinite [OF n ts]
  show ?thesis
  proof (cases te)
    case True
    then show ?thesis
      by (simp add: build_def prepareData_def features_def Let_def with_target_encoding_def idx)
  next
    case False
    then show ?thesis
      by (simp add: build_def prepareData_def features_def Let_def
          timeseries_train_test_split_def length_drop_columns idx)
  qed
qed

lemma build_finite_fraction:
  assumes len: "length s < 2 ^ 53" and q: "\<bar>q\<bar> \<le> pow2 900"
  shows "\<exists>F Xtr Xte ytr yte.
           features s ls le (Finite q) te = Inr F
           \<and> build s ls le (Finite q) te = Inr (Xtr, Xte, ytr, yte)
           \<and> Xtr @ Xte = drop_columns [Y] (dropna F) \<and> ytr @ yte = y_of (dropna F)
           \<and> (q \<le> 0 \<longrightarrow> Xte = [] \<and> yte = [])
           \<and> (q = 1 \<longrightarrow> Xtr = [] \<and> ytr = [])"
proof -
  from prepareData_returns [OF len q, of ls le te] obtain F b
    where F: "features s ls le (Finite q) te = Inr F"
      and b: "test_index_of (length (dropna F)) (Finite q) = Inr b"
      and out: "prepareData s ls le (Finite q) te
                = Inr (slice_to b (drop_columns [Y] (dropna F)), slice_from b (drop_columns [Y] (dropna F)),
                       slice_to b (y_of (dropna F)), slice_from b (y_of (dropna F)))"
    by blast
  let ?X = "drop_columns [Y] (dropna F)" and ?y = "y_of (dropna F)"
  have n: "length (dropna F) < 2 ^ 53"
    using length_dropna_le [of F] length_features [OF F] len by simp
  have "slice_from b ?X = [] \<and> slice_from b ?y = []" if "q \<le> 0"
  proof -
    from test_index_nonpositive_size [OF n that q] b have "int (length (dropna F)) \<le> b" by auto
    then show ?thesis
      by (simp add: slice_from_def length_drop_columns length_y_of)
  qed
  moreover have "slice_to b ?X = [] \<and> slice_to b ?y = []" if "q = 1"
  proof -
    from test_index_one [OF n] b that have "b = 0" by simp
    then show ?thesis by (simp add: slice_to_def)
  qed
  ultimately show ?thesis
    using F out by (simp add: build_def slice_append)
qed

subsection \<open>The example inputs, evaluated\<close>

lemma small_series_out:
  "prepareData small_series 1 2 (Finite (1 / 2)) False
     = Inr ([(3600000000000, [(Lag 1, Some 5), (Hour, Some 1), (Weekday, Some 3), (Is_weekend, Some 0)])],
        [small_row], [(3600000000000, Some 7)], [(7200000000000, Some 11)])"
  by code_simp

lemma weekly_series_out:
  "build weekly_series 1 2 (Finite (1 / 2)) True
     = Inr ([(3600000000000, [(Lag 1, Some 10), (Is_weekend, Some 0), (Weekday_average, Some 15), (Hour_average, Some 20)])],
            [(604800000000000, [(Lag 1, Some 20), (Is_weekend, Some 0), (Weekday_average, Some 15), (Hour_average, Some 10)]),
             (608400000000000, [(Lag 1, Some 30), (Is_weekend, Some 0), (Weekday_average, Some 15), (Hour_average, Some 20)])],
            [(3600000000000, Some 20)],
            [(604800000000000, Some 30), (608400000000000, Some 40)])"
  by code_simp

lemma weekly_series_index: "encoding_index weekly_series 1 2 (Finite (1 / 2)) = Inr 2"
  by code_simp

lemma weekly_series_train:
  "slice_to 2 weekly_series = [(0, Some 10), (3600000000000, Some 20)]"
  by code_simp

lemma empty_window_out:
  "build small_series 2 2 (Finite (1 / 2)) False
     = Inr ([(0, [(Hour, Some 0), (Weekday, Some 3), (Is_weekend, Some 0)])],
            [(3600000000000, [(Hour, Some 1), (Weekday, Some 3), (Is_weekend, Some 0)]),
             (7200000000000, [(Hour, Some 2), (Weekday, Some 3), (Is_weekend, Some 0)])],
            [(0, Some 5)], [(3600000000000, Some 7), (7200000000000, Some 11)])"
  by code_simp

lemma zero_lag_out:
  "build small_series 0 1 (Finite (1 / 2)) False
     = Inr ([(0, [(Lag 0, Some 5), (Hour, Some 0), (Weekday, Some 3), (Is_weekend, Some 0)])],
            [(3600000000000, [(Lag 0, Some 7), (Hour, Some 1), (Weekday, Some 3), (Is_weekend, Some 0)]),
             (7200000000000, [(Lag 0, Some 11), (Hour, Some 2), (Weekday, Some 3), (Is_weekend, Some 0)])],
            [(0, Some 5)], [(3600000000000, Some 7), (7200000000000, Some 11)])"
  by code_simp

lemma zero_fraction_out:
  "build small_series 1 2 (Finite 0) False
     = Inr ([(3600000000000, [(Lag 1, Some 5), (Hour, Some 1), (Weekday, Some 3), (Is_weekend, Some 0)]),
             small_row],
            [], [(3600000000000, Some 7), (7200000000000, Some 11)], [])"
  by code_simp

lemma one_fraction_out:
  "build small_series 1 2 (Finite 1) False
     = Inr ([],
            [(3600000000000, [(Lag 1, Some 5), (Hour, Some 1), (Weekday, Some 3), (Is_weekend, Some 0)]),
             small_row],
            [], [(3600000000000, Some 7), (7200000000000, Some 11)])"
  by code_simp

lemma test_index_example: "test_index_of 98 (round64 (1 / 5)) = Inr 78"
  by code_simp

lemma test_index_ninety: "test_index_of 90 (round64 (3 / 10)) = Inr 62"
  by code_simp

lemma double_three_tenths: "round64 (3 / 10) = Finite (5404319552844595 / 18014398509481984)"
  by code_simp



lemma upt_window:
  "take 78 (drop 2 [0..<100]) = [2..<80]"
  "drop 78 (drop 2 [0..<100]) = [80..<100]"
  "drop 2 [0..<100] = [2..<100]"
  "take 78 [2..<100] = [2..<80]"
  "drop 78 [2..<100] = [80..<100]"
  by code_simp+

lemma hourly_prepare:
  assumes w: "1 \<le> ls" "ls < le"
    and idx: "test_index_of (n - nat (le - 1)) ts = Inr (int b)"
  shows "\<exists>F X y. features (hourly_series t0 n) ls le ts False = Inr F
           \<and> dropna F = drop (nat (le - 1)) F \<and> length F = n
           \<and> map fst F = map (\<lambda>i. t0 + int i * 3600000000000) [0..<n]
           \<and> X = drop_columns [Y] (drop (nat (le - 1)) F) \<and> y = y_of (drop (nat (le - 1)) F)
           \<and> prepareData (hourly_series t0 n) ls le ts False = Inr (take b X, drop b X, take b y, drop b y)
           \<and> (\<forall>p k. p < n \<longrightarrow> ls \<le> k \<longrightarrow> k < le \<longrightarrow>
                 cell_of (Lag k) (F ! p) = shift k (map snd (hourly_series t0 n)) ! p)"
proof -
  let ?s = "hourly_series t0 n"
  define F where "F = closed_frame ?s [ls..le - 1] datetime_cells"
  have 1: "features ?s ls le ts False = Inr F"
    by (simp add: features_plain F_def)
  have 2: "dropna F = drop (nat (le - 1)) F"
    unfolding F_def by (rule dropna_plain [OF hourly_series_facts(4) w])
  have 3: "length F = n"
    by (simp add: F_def length_closed_frame hourly_series_facts(1))
  have 4: "map fst F = map (\<lambda>i. t0 + int i * 3600000000000) [0..<n]"
    by (simp add: F_def map_fst_closed_frame hourly_series_facts(2))
  have idx': "test_index_of (length ?s - nat (le - 1)) ts = Inr (int b)"
    using idx by (simp add: hourly_series_facts(1))
  have 5: "prepareData ?s ls le ts False
           = Inr (take b (drop_columns [Y] (drop (nat (le - 1)) F)), drop b (drop_columns [Y] (drop (nat (le - 1)) F)),
                  take b (y_of (drop (nat (le - 1)) F)), drop b (y_of (drop (nat (le - 1)) F)))"
    unfolding F_def by (rule prepareData_plain [OF hourly_series_facts(4) w idx' refl refl])
  have 6: "cell_of (Lag k) (F ! p) = shift k (map snd ?s) ! p" if "p < n" "ls \<le> k" "k < le" for p k
    unfolding F_def using that by (intro cell_of_Lag_closed_frame) (simp_all add: hourly_series_facts(1))
  from 1 2 3 4 5 6 show ?thesis by blast
qed

section \<open>Properties of \<open>prepareData\<close>\<close>

text \<open>
  C1, at a failing input. Two runs on ten hourly points that differ only in the target
  of the row at 03:00: the row is in the test partition of both runs, yet the weekday
  mean of the train row and of both test rows moves from 3/2 to 33/4, and the hour
  mean of the changed test row is its own target. The encoding boundary, 4, is taken
  over the nine lag-complete rows; the rows after 03:00 then lose their hour mean and
  are dropped, and the final boundary over the three rows left is 1.
\<close>

theorem target_leak_example:
  "encoding_index (leak_series 3) 1 2 (Finite (1 / 2)) = Inr 4
   \<and> prepareData (leak_series 3) 1 2 (Finite (1 / 2)) True
     = Inr ([(3600000000000, [(Lag 1, Some 0), (Is_weekend, Some 0), (Weekday_average, Some (3 / 2)), (Hour_average, Some 1)])],
        [(7200000000000, [(Lag 1, Some 1), (Is_weekend, Some 0), (Weekday_average, Some (3 / 2)), (Hour_average, Some 2)]),
         (10800000000000, [(Lag 1, Some 2), (Is_weekend, Some 0), (Weekday_average, Some (3 / 2)), (Hour_average, Some 3)])],
        [(3600000000000, Some 1)],
        [(7200000000000, Some 2), (10800000000000, Some 3)])
   \<and> prepareData (leak_series 30) 1 2 (Finite (1 / 2)) True
     = Inr ([(3600000000000, [(Lag 1, Some 0), (Is_weekend, Some 0), (Weekday_average, Some (33 / 4)), (Hour_average, Some 1)])],
        [(7200000000000, [(Lag 1, Some 1), (Is_weekend, Some 0), (Weekday_average, Some (33 / 4)), (Hour_average, Some 2)]),
         (10800000000000, [(Lag 1, Some 2), (Is_weekend, Some 0), (Weekday_average, Some (33 / 4)), (Hour_average, Some 30)])],
        [(3600000000000, Some 1)],
        [(7200000000000, Some 2), (10800000000000, Some 30)])"
  by code_simp

text \<open>
  C2, at a failing input. On five points of one weekday with \<open>lag_1\<close> alone, the row
  of index 0 is lag-incomplete and the encoding boundary is 2. The weekday mean that
  \<open>prepareData\<close> gives every row is 15, the mean of the targets 10 and 20 of the rows
  of index 0 and 1 of the whole frame; the lag-complete rows before the boundary are
  those of index 1 and 2, whose mean is 25.
\<close>

theorem lag_incomplete_row_in_means:
  "encoding_index weekly_series 1 2 (Finite (1 / 2)) = Inr 2
   \<and> (case features weekly_series 1 2 (Finite (1 / 2)) True of
        Inl e \<Rightarrow> False
      | Inr F \<Rightarrow>
          cell_of (Lag 1) (F ! 0) = None
          \<and> map (cell_of Weekday_average) F = [Some 15, Some 15, Some 15, Some 15, Some 15]
          \<and> map (cell_of Hour_average) F = [Some 10, Some 20, Some 10, Some 20, None])
   \<and> map fst (slice_to 2 (dropna (with_datetime (with_lags weekly_series 1 2))))
     = [3600000000000, 604800000000000]
   \<and> code_mean (slice_to 2 (dropna (with_datetime (with_lags weekly_series 1 2)))) Weekday Y 3 = Some 25
   \<and> code_mean (slice_to 2 (dropna (with_datetime (with_lags weekly_series 1 2)))) Hour Y 0 = Some 30"
  by code_simp

text \<open>
  C3, as the code has it. \<open>prepareData\<close> does not check the lag window: no call fails
  with \<open>InvalidWindow\<close>, and for every series and every \<open>lag_start\<close> and \<open>lag_end\<close>, also
  with \<open>lag_start < 1\<close> or \<open>lag_end \<le> lag_start\<close>, the call returns a dataset (for a
  series of fewer than \<open>2^53\<close> points and a finite fraction of magnitude up to \<open>2^900\<close>, so
  that line 36 and line 142 compute an index). The lag columns of its rows are exactly
  \<open>lag_k\<close> for \<open>lag_start \<le> k < lag_end\<close>: none when the window is empty.
\<close>

theorem build_without_window_check:
  assumes len: "length s < 2 ^ 53" and q: "\<bar>q\<bar> \<le> pow2 900"
  shows "(\<forall>ts. build s ls le ts te \<noteq> Inl InvalidWindow)
       \<and> (\<exists>Xtr Xte ytr yte. build s ls le (Finite q) te = Inr (Xtr, Xte, ytr, yte)
            \<and> (\<forall>r\<in>set Xtr \<union> set Xte. \<forall>k. (map_of (snd r) (Lag k) \<noteq> None) = (ls \<le> k \<and> k < le)))"
proof -
  have 1: "build s ls le ts te \<noteq> Inl InvalidWindow" for ts
    using build_error [of s ls le ts te InvalidWindow] by auto
  from build_finite_fraction [OF len q, of ls le te] obtain F Xtr Xte ytr yte
    where F: "features s ls le (Finite q) te = Inr F"
      and out: "build s ls le (Finite q) te = Inr (Xtr, Xte, ytr, yte)"
      and X: "Xtr @ Xte = drop_columns [Y] (dropna F)"
    by blast
  have "(map_of (snd r) (Lag k) \<noteq> None) = (ls \<le> k \<and> k < le)" if "r \<in> set Xtr \<union> set Xte" for r k
  proof -
    from that have "r \<in> set (Xtr @ Xte)" by simp
    then have "r \<in> set (drop_columns [Y] (dropna F))" by (simp only: X)
    from in_cleaned [OF this] obtain p where "p < length s"
      "snd r = filter (\<lambda>(c, v). c \<notin> set [Y]) (snd (F ! p))"
      by (auto simp: length_features [OF F])
    then show ?thesis
      using lag_columns_of_row [OF F, of p k] by simp
  qed
  with out 1 show ?thesis by blast
qed

theorem build_without_window_check_witness:
  "length small_series < 2 ^ 53 \<and> \<bar>1 / 2 :: rat\<bar> \<le> pow2 900
   \<and> build small_series 2 2 (Finite (1 / 2)) False
     = Inr ([(0, [(Hour, Some 0), (Weekday, Some 3), (Is_weekend, Some 0)])],
            [(3600000000000, [(Hour, Some 1), (Weekday, Some 3), (Is_weekend, Some 0)]),
             (7200000000000, [(Hour, Some 2), (Weekday, Some 3), (Is_weekend, Some 0)])],
            [(0, Some 5)], [(3600000000000, Some 7), (7200000000000, Some 11)])
   \<and> build small_series 2 2 NaN False \<noteq> Inl InvalidWindow
   \<and> map_of (snd (0 :: int, [(Hour, Some (0 :: rat)), (Weekday, Some 3), (Is_weekend, Some 0)])) (Lag 2)
     = None"
proof -
  have len: "length small_series < 2 ^ 53" by (simp add: small_series_def)
  have q: "\<bar>1 / 2 :: rat\<bar> \<le> pow2 900" by (simp add: pow2_def)
  note t = build_without_window_check [OF len q, of 2 2 False]
  from t have nan: "build small_series 2 2 NaN False \<noteq> Inl InvalidWindow" by blast
  from t obtain Xtr Xte ytr yte
    where out: "build small_series 2 2 (Finite (1 / 2)) False = Inr (Xtr, Xte, ytr, yte)"
      and cols: "\<forall>r\<in>set Xtr \<union> set Xte. \<forall>k. (map_of (snd r) (Lag k) \<noteq> None) = (2 \<le> k \<and> k < 2)"
    by blast
  from out have "Xtr = [(0, [(Hour, Some 0), (Weekday, Some 3), (Is_weekend, Some 0)])]"
    by (simp add: empty_window_out)
  then have "(0, [(Hour, Some 0), (Weekday, Some 3), (Is_weekend, Some 0)]) \<in> set Xtr \<union> set Xte"
    by simp
  with cols have "(map_of (snd (0 :: int, [(Hour, Some (0 :: rat)), (Weekday, Some 3), (Is_weekend, Some 0)])) (Lag 2) \<noteq> None)
     = ((2 :: int) \<le> 2 \<and> (2 :: int) < 2)"
    by blast
  then have "map_of (snd (0 :: int, [(Hour, Some (0 :: rat)), (Weekday, Some 3), (Is_weekend, Some 0)])) (Lag 2)
     = None"
    by simp
  with empty_window_out len q nan show ?thesis by blast
qed

theorem invalid_window_counterexample:
  "build small_series 2 2 (Finite (1 / 2)) False \<noteq> Inl InvalidWindow
   \<and> build small_series 2 2 (Finite (1 / 2)) False
     = Inr ([(0, [(Hour, Some 0), (Weekday, Some 3), (Is_weekend, Some 0)])],
            [(3600000000000, [(Hour, Some 1), (Weekday, Some 3), (Is_weekend, Some 0)]),
             (7200000000000, [(Hour, Some 2), (Weekday, Some 3), (Is_weekend, Some 0)])],
            [(0, Some 5)], [(3600000000000, Some 7), (7200000000000, Some 11)])
   \<and> build small_series 0 1 (Finite (1 / 2)) False \<noteq> Inl InvalidWindow
   \<and> build small_series 0 1 (Finite (1 / 2)) False
     = Inr ([(0, [(Lag 0, Some 5), (Hour, Some 0), (Weekday, Some 3), (Is_weekend, Some 0)])],
            [(3600000000000, [(Lag 0, Some 7), (Hour, Some 1), (Weekday, Some 3), (Is_weekend, Some 0)]),
             (7200000000000, [(Lag 0, Some 11), (Hour, Some 2), (Weekday, Some 3), (Is_weekend, Some 0)])],
            [(0, Some 5)], [(3600000000000, Some 7), (7200000000000, Some 11)])"
  by (simp add: empty_window_out zero_lag_out)

text \<open>
  C4, as the code has it. \<open>prepareData\<close> does not check the fraction: no call fails with
  \<open>InvalidFraction\<close>, and the only errors are the \<open>OverflowError\<close> and \<open>ValueError\<close> that
  \<open>int()\<close> raises at line 142 or at line 36, after the features are computed. On a
  series of fewer than \<open>2^53\<close> points: every finite fraction of magnitude up to \<open>2^900\<close>,
  inside \<open>(0, 1)\<close> or not, gives a dataset whose train and test rows together are the
  cleaned rows in order, with an empty test partition for \<open>test_fraction \<le> 0\<close> and an
  empty train partition for \<open>test_fraction = 1\<close>; a NaN fraction gives \<open>ValueError\<close>; an
  infinite fraction gives \<open>OverflowError\<close>, or \<open>ValueError\<close> when no row is lag-complete.
\<close>

theorem build_without_fraction_check:
  assumes len: "length s < 2 ^ 53"
  shows "build s ls le ts te \<noteq> Inl InvalidFraction
       \<and> (\<forall>e. build s ls le ts te = Inl e \<longrightarrow> e = OverflowError \<or> e = ValueError)
       \<and> (\<forall>q. \<bar>q\<bar> \<le> pow2 900 \<longrightarrow>
            (\<exists>F Xtr Xte ytr yte.
                features s ls le (Finite q) te = Inr F
                \<and> build s ls le (Finite q) te = Inr (Xtr, Xte, ytr, yte)
                \<and> Xtr @ Xte = drop_columns [Y] (dropna F) \<and> ytr @ yte = y_of (dropna F)
                \<and> (q \<le> 0 \<longrightarrow> Xte = [] \<and> yte = [])
                \<and> (q = 1 \<longrightarrow> Xtr = [] \<and> ytr = [])))
       \<and> build s ls le NaN te = Inl ValueError
       \<and> build s ls le PInf te
           = Inl (if dropna (with_datetime (with_lags s ls le)) = [] then ValueError else OverflowError)
       \<and> build s ls le NInf te
           = Inl (if dropna (with_datetime (with_lags s ls le)) = [] then ValueError else OverflowError)"
proof -
  have 1: "build s ls le ts te \<noteq> Inl InvalidFraction"
    using build_error [of s ls le ts te InvalidFraction] by auto
  have 2: "\<forall>e. build s ls le ts te = Inl e \<longrightarrow> e = OverflowError \<or> e = ValueError"
    using build_error by blast
  note 3 = build_finite_fraction [OF len, of _ ls le te]
  note 4 = build_not_a_number [OF len, of ls le te]
  have 5: "build s ls le PInf te
           = Inl (if dropna (with_datetime (with_lags s ls le)) = [] then ValueError else OverflowError)"
    by (rule build_infinite [OF len]) simp
  have 6: "build s ls le NInf te
           = Inl (if dropna (with_datetime (with_lags s ls le)) = [] then ValueError else OverflowError)"
    by (rule build_infinite [OF len]) simp
  from 1 2 3 4 5 6 show ?thesis by blast
qed

theorem build_without_fraction_check_witness:
  "length small_series < 2 ^ 53
   \<and> fst (snd (projr (build small_series 1 2 (Finite 0) False))) = []
   \<and> snd (snd (snd (projr (build small_series 1 2 (Finite 0) False)))) = []
   \<and> fst (projr (build small_series 1 2 (Finite 1) False)) = []
   \<and> fst (snd (snd (projr (build small_series 1 2 (Finite 1) False)))) = []
   \<and> build small_series 1 2 (Finite 2) False \<noteq> Inl InvalidFraction
   \<and> build small_series 1 2 NaN False = Inl ValueError
   \<and> build small_series 1 2 PInf False = Inl OverflowError"
proof -
  have len: "length small_series < 2 ^ 53" by (simp add: small_series_def)
  have q: "\<bar>0 :: rat\<bar> \<le> pow2 900" "\<bar>1 :: rat\<bar> \<le> pow2 900" by (simp_all add: pow2_def)
  have ne: "dropna (with_datetime (with_lags small_series 1 2)) \<noteq> []" by code_simp
  note t = build_without_fraction_check [OF len, of 1 2 _ False]
  from t [of NaN]
  have every: "\<exists>F Xtr Xte ytr yte.
                features small_series 1 2 (Finite q) False = Inr F
                \<and> build small_series 1 2 (Finite q) False = Inr (Xtr, Xte, ytr, yte)
                \<and> Xtr @ Xte = drop_columns [Y] (dropna F) \<and> ytr @ yte = y_of (dropna F)
                \<and> (q \<le> 0 \<longrightarrow> Xte = [] \<and> yte = [])
                \<and> (q = 1 \<longrightarrow> Xtr = [] \<and> ytr = [])" if "\<bar>q\<bar> \<le> pow2 900" for q
    using that by blast
  from every [OF q(1)] obtain Xtr Xte ytr yte
    where "build small_series 1 2 (Finite 0) False = Inr (Xtr, Xte, ytr, yte)" "Xte = []" "yte = []"
    by auto
  then have 0: "fst (snd (projr (build small_series 1 2 (Finite 0) False))) = []
           \<and> snd (snd (snd (projr (build small_series 1 2 (Finite 0) False)))) = []"
    by simp
  from every [OF q(2)] obtain Xtr Xte ytr yte
    where "build small_series 1 2 (Finite 1) False = Inr (Xtr, Xte, ytr, yte)" "Xtr = []" "ytr = []"
    by auto
  then have 1: "fst (projr (build small_series 1 2 (Finite 1) False)) = []
           \<and> fst (snd (snd (projr (build small_series 1 2 (Finite 1) False)))) = []"
    by simp
  from t [of "Finite 2"] have 2: "build small_series 1 2 (Finite 2) False \<noteq> Inl InvalidFraction"
    by blast
  from t [of NaN] have 3: "build small_series 1 2 NaN False = Inl ValueError" by blast
  from t [of NaN] ne have 4: "build small_series 1 2 PInf False = Inl OverflowError" by simp
  from len 0 1 2 3 4 show ?thesis by blast
qed

theorem invalid_fraction_counterexample:
  "build small_series 1 2 (Finite 0) False \<noteq> Inl InvalidFraction
   \<and> build small_series 1 2 (Finite 0) False
     = Inr ([(3600000000000, [(Lag 1, Some 5), (Hour, Some 1), (Weekday, Some 3), (Is_weekend, Some 0)]),
             small_row],
            [], [(3600000000000, Some 7), (7200000000000, Some 11)], [])
   \<and> build small_series 1 2 (Finite 1) False \<noteq> Inl InvalidFraction
   \<and> build small_series 1 2 (Finite 1) False
     = Inr ([],
            [(3600000000000, [(Lag 1, Some 5), (Hour, Some 1), (Weekday, Some 3), (Is_weekend, Some 0)]),
             small_row],
            [], [(3600000000000, Some 7), (7200000000000, Some 11)])"
  by (simp add: zero_fraction_out one_fraction_out)

text \<open>
  C5. The end-to-end example: for 100 hourly points with \<open>v[i] = i\<close>, from any start
  time, and \<open>lag_start = 1\<close>, \<open>lag_end = 3\<close>, \<open>test_fraction = 0.2\<close> (the float nearest to
  1/5), no target encoding, the lag-complete rows are the 98 rows of indices 2 to 99,
  the train partition is the 78 rows of indices 2 to 79, the test partition the 20 rows
  of indices 80 to 99, and the first test row, of index 80, has \<open>lag_1 = 79\<close> and
  \<open>lag_2 = 78\<close>.
\<close>

theorem end_to_end_example:
  "case features (hourly_series t0 100) 1 3 (round64 (1 / 5)) False of
     Inl e \<Rightarrow> False
   | Inr F \<Rightarrow>
      (case prepareData (hourly_series t0 100) 1 3 (round64 (1 / 5)) False of
         Inl e \<Rightarrow> False
       | Inr (Xtr, Xte, ytr, yte) \<Rightarrow>
           map fst (dropna F) = map (\<lambda>i. t0 + int i * 3600000000000) [2..<100]
           \<and> length (dropna F) = 98
           \<and> map fst Xtr = map (\<lambda>i. t0 + int i * 3600000000000) [2..<80] \<and> length Xtr = 78
           \<and> map fst ytr = map fst Xtr
           \<and> map fst Xte = map (\<lambda>i. t0 + int i * 3600000000000) [80..<100] \<and> length Xte = 20
           \<and> map fst yte = map fst Xte
           \<and> fst (Xte ! 0) = t0 + 80 * 3600000000000
           \<and> cell_of (Lag 1) (Xte ! 0) = Some 79 \<and> cell_of (Lag 2) (Xte ! 0) = Some 78)"
proof -
  let ?s = "hourly_series t0 100"
  let ?ts = "round64 (1 / 5)"
  let ?f = "\<lambda>i. t0 + int i * 3600000000000"
  have idx: "test_index_of (100 - nat (3 - 1)) ?ts = Inr (int 78)"
    by (simp add: test_index_example)
  from hourly_prepare [OF _ _ idx, of 1 t0] obtain F X y
    where feat: "features ?s 1 3 ?ts False = Inr F"
      and final: "dropna F = drop 2 F" and lenF: "length F = 100"
      and fstF: "map fst F = map ?f [0..<100]"
      and X: "X = drop_columns [Y] (drop 2 F)" and y: "y = y_of (drop 2 F)"
      and out: "prepareData ?s 1 3 ?ts False = Inr (take 78 X, drop 78 X, take 78 y, drop 78 y)"
      and lag: "\<And>p k. p < 100 \<Longrightarrow> 1 \<le> k \<Longrightarrow> k < 3 \<Longrightarrow> cell_of (Lag k) (F ! p) = shift k (map snd ?s) ! p"
    by auto
  have lenX: "length X = 98"
    by (simp add: X length_drop_columns lenF)
  have fsty: "map fst y = map fst X"
    by (simp add: X y map_fst_y_of map_fst_drop_columns)
  have 1: "map fst (drop 2 F) = map ?f [2..<100]"
    unfolding drop_map [symmetric] fstF by (simp only: drop_map upt_window)
  have 2: "map fst (take 78 X) = map ?f [2..<80]"
    unfolding X take_map [symmetric] map_fst_drop_columns drop_map [symmetric] fstF
    by (simp only: drop_map take_map upt_window)
  have 3: "map fst (drop 78 X) = map ?f [80..<100]"
    unfolding X drop_map [symmetric] map_fst_drop_columns fstF
    by (simp only: drop_map upt_window)
  have row: "drop 78 X ! 0 = drop_columns [Y] (drop 2 F) ! 78"
    by (simp add: X length_drop_columns lenF)
  have t: "fst (drop 78 X ! 0) = t0 + 80 * 3600000000000"
    using arg_cong [OF 3, of "\<lambda>xs. xs ! 0"] by (simp add: lenX)
  have cell: "cell_of (Lag k) (drop 78 X ! 0) = shift k (map snd ?s) ! 80" if "1 \<le> k" "k < 3" for k
    using that lag [of 80 k] by (simp add: row cell_of_drop_columns lenF)
  have l1: "cell_of (Lag 1) (drop 78 X ! 0) = Some 79"
    by (simp add: cell nth_shift hourly_series_facts(3) upcast_small)
  have l2: "cell_of (Lag 2) (drop 78 X ! 0) = Some 78"
    by (simp add: cell nth_shift hourly_series_facts(3) upcast_small)
  have c2: "length (drop 2 F) = 98" by (simp add: lenF)
  have c4: "length (take 78 X) = 78" "length (drop 78 X) = 20" by (simp_all add: lenX)
  have c5: "map fst (take 78 y) = map fst (take 78 X)" "map fst (drop 78 y) = map fst (drop 78 X)"
    unfolding take_map [symmetric] drop_map [symmetric] fsty by (rule refl)+
  from 1 2 3 t l1 l2 c2 c4 c5 show ?thesis
    unfolding feat out sum.case prod.case final by blast
qed

text \<open>
  C6, as the code has it. For a fraction \<open>0 < test_fraction < 1\<close> and a series in
  increasing time order (of fewer than \<open>2\<^sup>5\<^sup>3\<close> points), the call returns and the final
  partition is by position, at the boundary \<open>int(len(final_rows) * (1 - test_fraction))\<close>
  that line 36 computes in floats over the rows left after all dropping. The boundary
  lies between 0 and the number of cleaned rows: the train rows are the prefix before
  it, the test rows the suffix from it, the counts add up to the number of cleaned rows
  (for features and targets alike), every train timestamp is strictly below every test
  timestamp, and no row is in both partitions.

  The boundary is not always the floor of \<open>len(final_rows) * (1 - test_fraction)\<close>.
  91 hourly points with \<open>lag_1\<close> alone leave 90 cleaned rows; at \<open>test_fraction = 0.3\<close>
  the float \<open>1 - 0.3\<close> is \<open>0.7\<close> rounded down, the product rounds to
  \<open>62.99999999999999\<close>, and the train partition has 62 rows, where the floor is 63,
  both for the value of the float \<open>0.3\<close> and for the decimal fraction 3/10.
\<close>

theorem split_by_position:
  assumes q: "0 < q" "q < 1"
    and len: "length s < 2 ^ 53"
    and sorted: "sorted_wrt (<) (map fst s)"
  shows "\<exists>F b Xtr Xte ytr yte.
           features s ls le (Finite q) te = Inr F
         \<and> prepareData s ls le (Finite q) te = Inr (Xtr, Xte, ytr, yte)
         \<and> test_index_of (length (dropna F)) (Finite q) = Inr (int b)
         \<and> b \<le> length (dropna F)
         \<and> Xtr = take b (drop_columns [Y] (dropna F)) \<and> Xte = drop b (drop_columns [Y] (dropna F))
         \<and> ytr = take b (y_of (dropna F)) \<and> yte = drop b (y_of (dropna F))
         \<and> length Xtr = b \<and> length Xtr + length Xte = length (dropna F)
         \<and> length ytr = length Xtr \<and> length yte = length Xte
         \<and> (\<forall>r\<in>set Xtr. \<forall>r'\<in>set Xte. fst r < fst r')
         \<and> set Xtr \<inter> set Xte = {}"
proof -
  have "\<bar>q\<bar> \<le> pow2 900" using q one_le_pow2_900 by simp
  from prepareData_returns [OF len this, of ls le te] obtain F b0
    where F: "features s ls le (Finite q) te = Inr F"
      and b0: "test_index_of (length (dropna F)) (Finite q) = Inr b0"
      and out: "prepareData s ls le (Finite q) te
                = Inr (slice_to b0 (drop_columns [Y] (dropna F)), slice_from b0 (drop_columns [Y] (dropna F)),
                       slice_to b0 (y_of (dropna F)), slice_from b0 (y_of (dropna F)))"
    by blast
  let ?final = "dropna F"
  let ?X = "drop_columns [Y] ?final"
  have n: "length ?final < 2 ^ 53"
    using length_dropna_le [of F] length_features [OF F] len by simp
  from test_index_bounds [OF n, of q] q b0 have bounds: "0 \<le> b0" "b0 \<le> int (length ?final)"
    by auto
  define b where "b = nat b0"
  have b: "int b = b0" "b \<le> length ?final" using bounds by (simp_all add: b_def)
  define Xtr Xte ytr yte where "Xtr = take b ?X" and "Xte = drop b ?X"
    and "ytr = take b (y_of ?final)" and "yte = drop b (y_of ?final)"
  note parts = Xtr_def Xte_def ytr_def yte_def
  have out': "prepareData s ls le (Finite q) te = Inr (Xtr, Xte, ytr, yte)"
    using bounds(1) by (simp add: out parts b_def slice_to_def slice_from_def)
  have lenb: "length Xtr = b"
    using b(2) by (simp add: parts length_drop_columns)
  have lensum: "length Xtr + length Xte = length ?final"
    by (simp add: parts length_drop_columns)
  have leny: "length ytr = length Xtr" "length yte = length Xte"
    by (simp_all add: parts length_drop_columns length_y_of)
  have "sorted_wrt (\<lambda>a b. fst a < fst b) ?final"
    unfolding dropna_def
    using sorted by (intro sorted_wrt_map_fst_filter) (simp add: map_fst_features [OF F])
  then have "sorted_wrt (\<lambda>a b. fst a < fst b) ?X"
    using sorted_wrt_fst_cong [OF map_fst_drop_columns [of "[Y]" ?final]] by simp
  then have "sorted_wrt (\<lambda>a b. fst a < fst b) (Xtr @ Xte)"
    by (simp add: parts)
  then have order: "\<forall>r\<in>set Xtr. \<forall>r'\<in>set Xte. fst r < fst r'"
    by (simp add: sorted_wrt_append)
  then have disj: "set Xtr \<inter> set Xte = {}" by fastforce
  have idx: "test_index_of (length ?final) (Finite q) = Inr (int b)"
    by (simp only: b0 b(1))
  from F out' idx b(2) lenb lensum leny order disj parts show ?thesis
    by blast
qed

theorem split_by_position_witness:
  "0 < (1 / 2 :: rat) \<and> (1 / 2 :: rat) < 1 \<and> length small_series < 2 ^ 53
   \<and> sorted_wrt (<) (map fst small_series)
   \<and> prepareData small_series 1 2 (Finite (1 / 2)) False
       = Inr ([(3600000000000, [(Lag 1, Some 5), (Hour, Some 1), (Weekday, Some 3), (Is_weekend, Some 0)])],
          [small_row], [(3600000000000, Some 7)], [(7200000000000, Some 11)])
   \<and> length [(3600000000000 :: int, [(Lag 1, Some (5 :: rat)), (Hour, Some 1), (Weekday, Some 3), (Is_weekend, Some 0)])]
       + length [small_row]
       = length (dropna (projr (features small_series 1 2 (Finite (1 / 2)) False)))
   \<and> test_index_of (length (dropna (projr (features small_series 1 2 (Finite (1 / 2)) False)))) (Finite (1 / 2))
       = Inr 1
   \<and> [(3600000000000, [(Lag 1, Some 5), (Hour, Some 1), (Weekday, Some 3), (Is_weekend, Some 0)])]
       = take 1 (drop_columns [Y] (dropna (projr (features small_series 1 2 (Finite (1 / 2)) False))))
   \<and> [small_row]
       = drop 1 (drop_columns [Y] (dropna (projr (features small_series 1 2 (Finite (1 / 2)) False))))
   \<and> set [(3600000000000, [(Lag 1, Some 5), (Hour, Some 1), (Weekday, Some 3), (Is_weekend, Some 0)])]
       \<inter> set [small_row] = {}"
proof -
  have a: "0 < (1 / 2 :: rat)" and b: "(1 / 2 :: rat) < 1" by simp_all
  have len: "length small_series < 2 ^ 53" by (simp add: small_series_def)
  have s: "sorted_wrt (<) (map fst small_series)" by (simp add: small_series_def)
  from split_by_position [OF a b len s, of 1 2 False] obtain F b Xtr Xte ytr yte
    where F: "features small_series 1 2 (Finite (1 / 2)) False = Inr F"
      and out: "prepareData small_series 1 2 (Finite (1 / 2)) False = Inr (Xtr, Xte, ytr, yte)"
      and idx: "test_index_of (length (dropna F)) (Finite (1 / 2)) = Inr (int b)"
      and parts: "Xtr = take b (drop_columns [Y] (dropna F))" "Xte = drop b (drop_columns [Y] (dropna F))"
      and lens: "length Xtr = b" "length Xtr + length Xte = length (dropna F)"
      and disj: "set Xtr \<inter> set Xte = {}"
    by blast
  from out have X: "Xtr = [(3600000000000, [(Lag 1, Some 5), (Hour, Some 1), (Weekday, Some 3), (Is_weekend, Some 0)])]"
    "Xte = [small_row]"
    by (simp_all add: small_series_out)
  from lens(1) X(1) have b1: "b = 1" by simp
  from F have pF: "projr (features small_series 1 2 (Finite (1 / 2)) False) = F" by simp
  show ?thesis
    unfolding pF
    using a b len s small_series_out idx parts lens(2) disj
    unfolding X b1 by simp
qed

theorem split_floor_counterexample:
  "round64 (3 / 10) = Finite (5404319552844595 / 18014398509481984)
   \<and> (case features (hourly_series 0 91) 1 2 (round64 (3 / 10)) False of
        Inl e \<Rightarrow> False
      | Inr F \<Rightarrow>
         (case prepareData (hourly_series 0 91) 1 2 (round64 (3 / 10)) False of
            Inl e \<Rightarrow> False
          | Inr (Xtr, Xte, ytr, yte) \<Rightarrow>
              length (dropna F) = 90 \<and> length Xtr = 62 \<and> length Xte = 28
              \<and> \<lfloor>of_nat (length (dropna F)) * (1 - 5404319552844595 / 18014398509481984 :: rat)\<rfloor> = 63
              \<and> \<lfloor>of_nat (length (dropna F)) * (1 - 3 / 10 :: rat)\<rfloor> = 63))"
proof -
  let ?s = "hourly_series 0 91"
  let ?ts = "round64 (3 / 10)"
  have idx: "test_index_of (91 - nat (2 - 1)) ?ts = Inr (int 62)"
    by (simp add: test_index_ninety)
  from hourly_prepare [OF _ _ idx, of 1 0] obtain F X y
    where feat: "features ?s 1 2 ?ts False = Inr F"
      and final: "dropna F = drop 1 F" and lenF: "length F = 91"
      and X: "X = drop_columns [Y] (drop 1 F)"
      and out: "prepareData ?s 1 2 ?ts False = Inr (take 62 X, drop 62 X, take 62 y, drop 62 y)"
    by auto
  have lenX: "length X = 90"
    by (simp add: X length_drop_columns lenF)
  have c1: "length (drop 1 F) = 90" by (simp add: lenF)
  have c2: "length (take 62 X) = 62" "length (drop 62 X) = 28" by (simp_all add: lenX)
  have c3: "\<lfloor>of_nat 90 * (1 - 5404319552844595 / 18014398509481984 :: rat)\<rfloor> = 63"
    "\<lfloor>of_nat 90 * (1 - 3 / 10 :: rat)\<rfloor> = 63"
    by code_simp+
  from c1 c2 c3 double_three_tenths show ?thesis
    unfolding feat out sum.case prod.case final c1 by blast
qed




text \<open>
  C8. With target encoding, when the call returns a dataset, a row whose weekday group
  or hour group has no row on the training side of the encoding boundary gets the
  undefined marker in the corresponding encoded cell; the row is then in neither
  partition, of the features and of the targets. Rows are told apart by their
  timestamps, which the series has once each.
\<close>

theorem unseen_group_dropped:
  assumes out: "build s ls le ts True = Inr (Xtr, Xte, ytr, yte)"
    and distinct: "distinct (map fst s)"
    and p: "p < length s"
    and ti: "encoding_index s ls le ts = Inr ti"
    and train: "train = slice_to ti s"
    and unseen: "weekday_of (fst (s ! p)) \<notin> weekday_of ` fst ` set train
                 \<or> hour_of (fst (s ! p)) \<notin> hour_of ` fst ` set train"
  shows "\<exists>F. features s ls le ts True = Inr F
       \<and> (weekday_of (fst (s ! p)) \<notin> weekday_of ` fst ` set train
            \<longrightarrow> cell_of Weekday_average (F ! p) = None)
       \<and> (hour_of (fst (s ! p)) \<notin> hour_of ` fst ` set train
            \<longrightarrow> cell_of Hour_average (F ! p) = None)
       \<and> fst (s ! p) \<notin> fst ` (set Xtr \<union> set Xte)
       \<and> fst (s ! p) \<notin> fst ` (set ytr \<union> set yte)"
proof -
  from build_Inr [OF out] obtain F where F: "features s ls le ts True = Inr F"
    and split: "timeseries_train_test_split (drop_columns [Y] (dropna F)) (y_of (dropna F)) ts
                = Inr (Xtr, Xte, ytr, yte)"
    by blast
  note cells = encoded_cell_values [OF F ti p train]
  have none: "weekday_of (fst (s ! p)) \<notin> weekday_of ` fst ` set train
               \<longrightarrow> cell_of Weekday_average (F ! p) = None"
             "hour_of (fst (s ! p)) \<notin> hour_of ` fst ` set train
               \<longrightarrow> cell_of Hour_average (F ! p) = None"
    using cells(1,2) by (simp_all add: series_group_values_unseen mean_def)
  from unseen have "(Weekday_average, None) \<in> set (snd (F ! p)) \<or> (Hour_average, None) \<in> set (snd (F ! p))"
    using cells(3,4) by (auto simp: series_group_values_unseen mean_def)
  then have inc: "\<not> complete (F ! p)"
    using incomplete_row by blast
  note sp = split_subset [OF split]
  have "fst (s ! p) \<notin> fst ` set (drop_columns [Y] (dropna F))"
       "fst (s ! p) \<notin> fst ` set (y_of (dropna F))"
    using complete_position_unique [OF F distinct p] inc by blast+
  moreover have "set Xtr \<union> set Xte = set (drop_columns [Y] (dropna F))"
    using sp(3) by (metis set_append)
  moreover have "set ytr \<union> set yte = set (y_of (dropna F))"
    using sp(4) by (metis set_append)
  ultimately show ?thesis using none F by simp
qed

theorem unseen_group_dropped_witness:
  "build weekly_series 1 2 (Finite (1 / 2)) True
     = Inr ([(3600000000000, [(Lag 1, Some 10), (Is_weekend, Some 0), (Weekday_average, Some 15), (Hour_average, Some 20)])],
            [(604800000000000, [(Lag 1, Some 20), (Is_weekend, Some 0), (Weekday_average, Some 15), (Hour_average, Some 10)]),
             (608400000000000, [(Lag 1, Some 30), (Is_weekend, Some 0), (Weekday_average, Some 15), (Hour_average, Some 20)])],
            [(3600000000000, Some 20)],
            [(604800000000000, Some 30), (608400000000000, Some 40)])
   \<and> distinct (map fst weekly_series) \<and> 4 < length weekly_series
   \<and> encoding_index weekly_series 1 2 (Finite (1 / 2)) = Inr 2
   \<and> slice_to 2 weekly_series = [(0, Some 10), (3600000000000, Some 20)]
   \<and> hour_of (fst (weekly_series ! 4)) \<notin> hour_of ` fst ` set [(0::int, Some (10::rat)), (3600000000000, Some 20)]
   \<and> cell_of Hour_average (projr (features weekly_series 1 2 (Finite (1 / 2)) True) ! 4) = None
   \<and> fst (weekly_series ! 4) \<notin> fst ` set (fst (projr (build weekly_series 1 2 (Finite (1 / 2)) True)))
   \<and> fst (weekly_series ! 4) \<notin> fst ` set (fst (snd (projr (build weekly_series 1 2 (Finite (1 / 2)) True))))"
proof -
  have d: "distinct (map fst weekly_series)" and p: "4 < length weekly_series"
    by (simp_all add: weekly_series_def)
  have u: "hour_of (fst (weekly_series ! 4)) \<notin> hour_of ` fst ` set [(0::int, Some (10::rat)), (3600000000000, Some 20)]"
    by (simp add: weekly_series_def hour_of_def)
  then have u': "weekday_of (fst (weekly_series ! 4)) \<notin> weekday_of ` fst ` set [(0::int, Some (10::rat)), (3600000000000, Some 20)]
       \<or> hour_of (fst (weekly_series ! 4)) \<notin> hour_of ` fst ` set [(0::int, Some (10::rat)), (3600000000000, Some 20)]"
    by (rule disjI2)
  from unseen_group_dropped [OF weekly_series_out d p weekly_series_index weekly_series_train [symmetric] u']
  obtain F where F: "features weekly_series 1 2 (Finite (1 / 2)) True = Inr F"
    and t: "hour_of (fst (weekly_series ! 4)) \<notin> hour_of ` fst ` set [(0::int, Some (10::rat)), (3600000000000, Some 20)]
            \<longrightarrow> cell_of Hour_average (F ! 4) = None"
      "fst (weekly_series ! 4) \<notin> fst ` (set ([(3600000000000, [(Lag 1, Some 10), (Is_weekend, Some 0), (Weekday_average, Some 15), (Hour_average, Some 20)])] :: frame)
          \<union> set ([(604800000000000, [(Lag 1, Some 20), (Is_weekend, Some 0), (Weekday_average, Some 15), (Hour_average, Some 10)]),
             (608400000000000, [(Lag 1, Some 30), (Is_weekend, Some 0), (Weekday_average, Some 15), (Hour_average, Some 20)])] :: frame))"
    by blast
  from t(1) u F have 1: "cell_of Hour_average (projr (features weekly_series 1 2 (Finite (1 / 2)) True) ! 4) = None"
    by simp
  from t(2) have 2: "fst (weekly_series ! 4) \<notin> fst ` set (fst (projr (build weekly_series 1 2 (Finite (1 / 2)) True)))"
    "fst (weekly_series ! 4) \<notin> fst ` set (fst (snd (projr (build weekly_series 1 2 (Finite (1 / 2)) True))))"
    by (simp_all add: weekly_series_out)
  from 1 2 show ?thesis
    using d p u weekly_series_train weekly_series_index weekly_series_out by blast
qed

text \<open>
  C9. \<open>prepareData\<close> leaves the caller's series as it was and is a function of its
  arguments: after a call on a store that holds the series, every object the store
  held is unchanged (the call only adds its own copy), whether the call returns or
  raises; the result is the value of the pure \<open>prepareData\<close> on the series, and a
  second call with an equal series and equal parameters, from any store, gives the same
  result.
\<close>

theorem prepareData_pure:
  assumes "series_ref < length \<sigma>" and "\<sigma> ! series_ref = Series_obj s"
    and "ref2 < length \<sigma>2" and "\<sigma>2 ! ref2 = Series_obj s"
  shows "take (length \<sigma>) (snd (prepareData_st series_ref ls le ts te \<sigma>)) = \<sigma>
       \<and> snd (prepareData_st series_ref ls le ts te \<sigma>) ! series_ref = Series_obj s
       \<and> fst (prepareData_st series_ref ls le ts te \<sigma>) = prepareData s ls le ts te
       \<and> fst (prepareData_st ref2 ls le ts te \<sigma>2) = fst (prepareData_st series_ref ls le ts te \<sigma>)"
proof -
  from prepareData_st_eq [OF assms(1,2), of ls le ts te] obtain G
    where 1: "prepareData_st series_ref ls le ts te \<sigma> = (prepareData s ls le ts te, \<sigma> @ [Frame_obj G])"
    by blast
  from prepareData_st_eq [OF assms(3,4), of ls le ts te] obtain G2
    where 2: "prepareData_st ref2 ls le ts te \<sigma>2 = (prepareData s ls le ts te, \<sigma>2 @ [Frame_obj G2])"
    by blast
  show ?thesis
    using assms(1,2) by (simp add: 1 2 nth_append)
qed

theorem prepareData_pure_witness:
  "(0 :: nat) < length [Series_obj small_series]
   \<and> (1 :: nat) < length [Frame_obj [], Series_obj small_series]
   \<and> take (length [Series_obj small_series])
        (snd (prepareData_st 0 1 2 (Finite (1 / 2)) False [Series_obj small_series])) = [Series_obj small_series]
   \<and> snd (prepareData_st 0 1 2 (Finite (1 / 2)) False [Series_obj small_series]) ! 0 = Series_obj small_series
   \<and> fst (prepareData_st 0 1 2 (Finite (1 / 2)) False [Series_obj small_series])
        = prepareData small_series 1 2 (Finite (1 / 2)) False
   \<and> fst (prepareData_st 1 1 2 (Finite (1 / 2)) False [Frame_obj [], Series_obj small_series])
        = fst (prepareData_st 0 1 2 (Finite (1 / 2)) False [Series_obj small_series])"
  using prepareData_pure [of 0 "[Series_obj small_series]" small_series 1
      "[Frame_obj [], Series_obj small_series]" 1 2 "Finite (1 / 2)" False]
  by simp

section \<open>Properties of the moving average\<close>

text \<open>
  C10. For a non-empty series and a window \<open>n\<close> at least as long as the series,
  \<open>moving_average\<close> returns the mean of the whole series: the slice \<open>series[-n:]\<close>
  clamps at the start of the series instead of failing.
\<close>

theorem moving_average_whole_series:
  assumes "series \<noteq> []" and "int (length series) \<le> n"
  shows "moving_average series n = Some (sum_list series / of_nat (length series))"
proof -
  have "slice_from (- n) series = series"
    using assms by (cases "n = 0") (simp_all add: slice_from_def)
  then show ?thesis
    using assms(1) by (simp add: moving_average_def mean_def)
qed

theorem moving_average_whole_series_witness:
  "[1, 2, 6 :: rat] \<noteq> [] \<and> int (length [1, 2, 6 :: rat]) \<le> 5
   \<and> moving_average [1, 2, 6] 5 = Some 3"
  using moving_average_whole_series [of "[1, 2, 6]" 5] by simp

end
